theory Spec2Isabelle
  imports Complex_Main "HOL-Library.Multiset"
begin

section \<open>JavaScript numbers\<close>

text \<open>
  A JavaScript number is an IEEE 754 binary64 value: a finite double, one of the two
  infinities, or \<open>NaN\<close>. A finite double is modelled by the real number it denotes. Every
  arithmetic operation computes the exact real result and rounds it with \<open>fl\<close> to the
  nearest double, a tie going to the even significand, and to an infinity beyond the
  largest double. The sign of zero is not modelled (a zero divisor counts as \<open>+0\<close>).
  A division by zero does not raise: it yields an infinity or \<open>NaN\<close>.
\<close>

definition round_half_even :: "real \<Rightarrow> int" where
  "round_half_even q =
     (let f = \<lfloor>q\<rfloor> in
      if q - of_int f < 1 / 2 then f
      else if 1 / 2 < q - of_int f then f + 1
      else if even f then f else f + 1)"

text \<open>
  The binary exponent of a positive number: how often a number from 2 on is halved
  to get below 2, or a number below 1 is doubled to reach 1. The doublings end at 1022,
  where the subnormal numbers begin.
\<close>

function halvings :: "real \<Rightarrow> nat" where
  "halvings x = (if 2 \<le> x then Suc (halvings (x / 2)) else 0)"
  by pat_completeness auto
termination
proof (relation "measure (\<lambda>x. nat \<lfloor>x\<rfloor>)")
  fix x :: real assume "2 \<le> x"
  then have "\<lfloor>x / 2\<rfloor> < \<lfloor>x\<rfloor>" by linarith
  moreover have "0 < \<lfloor>x\<rfloor>" using \<open>2 \<le> x\<close> by linarith
  ultimately show "(x / 2, x) \<in> measure (\<lambda>x. nat \<lfloor>x\<rfloor>)" by simp
qed simp

declare halvings.simps [simp del]

function doublings :: "nat \<Rightarrow> real \<Rightarrow> nat" where
  "doublings k x = (if k = 0 \<or> 1 \<le> x then 0 else Suc (doublings (k - 1) (2 * x)))"
  by pat_completeness auto
termination
  by (relation "measure (\<lambda>(k, x). k)") auto

declare doublings.simps [simp del]

definition exponent_of :: "real \<Rightarrow> int" where
  "exponent_of x = (if 1 \<le> x then int (halvings x) else - int (doublings 1022 x))"

datatype jsnum = Num real | PosInf | NegInf | NaN

text \<open>
  Rounding to binary64: the spacing of the doubles around \<open>x\<close> is \<open>u\<close>, 52 binary
  places below the exponent of \<open>x\<close>; the result is the multiple of \<open>u\<close> nearest to \<open>x\<close>.
\<close>

definition fl :: "real \<Rightarrow> jsnum" where
  "fl x =
     (if x = 0 then Num 0
      else
        let u = 2 powi (exponent_of \<bar>x\<bar> - 52);
            r = of_int (round_half_even (x / u)) * u
        in if 2 ^ 1024 \<le> \<bar>r\<bar> then (if x < 0 then NegInf else PosInf) else Num r)"

fun jneg :: "jsnum \<Rightarrow> jsnum" where
  "jneg (Num a) = Num (- a)"
| "jneg PosInf = NegInf"
| "jneg NegInf = PosInf"
| "jneg NaN = NaN"

fun jadd :: "jsnum \<Rightarrow> jsnum \<Rightarrow> jsnum" where
  "jadd NaN _ = NaN"
| "jadd _ NaN = NaN"
| "jadd (Num a) (Num b) = fl (a + b)"
| "jadd PosInf NegInf = NaN"
| "jadd NegInf PosInf = NaN"
| "jadd PosInf _ = PosInf"
| "jadd _ PosInf = PosInf"
| "jadd NegInf _ = NegInf"
| "jadd _ NegInf = NegInf"

definition jsub :: "jsnum \<Rightarrow> jsnum \<Rightarrow> jsnum" where
  "jsub a b = jadd a (jneg b)"

text \<open>The sign of a number that is not \<open>NaN\<close>: \<open>-1\<close>, \<open>0\<close> or \<open>1\<close>.\<close>

fun jsign :: "jsnum \<Rightarrow> int" where
  "jsign (Num a) = (if a < 0 then - 1 else if a = 0 then 0 else 1)"
| "jsign PosInf = 1"
| "jsign NegInf = - 1"
| "jsign NaN = 0"

definition signed_inf :: "int \<Rightarrow> jsnum" where
  "signed_inf s = (if s < 0 then NegInf else PosInf)"

fun jmul :: "jsnum \<Rightarrow> jsnum \<Rightarrow> jsnum" where
  "jmul NaN _ = NaN"
| "jmul _ NaN = NaN"
| "jmul (Num a) (Num b) = fl (a * b)"
| "jmul a b = (if jsign a * jsign b = 0 then NaN else signed_inf (jsign a * jsign b))"

fun jdiv :: "jsnum \<Rightarrow> jsnum \<Rightarrow> jsnum" where
  "jdiv NaN _ = NaN"
| "jdiv _ NaN = NaN"
| "jdiv (Num a) (Num b) =
     (if b \<noteq> 0 then fl (a / b)
      else if a = 0 then NaN
      else if a < 0 then NegInf else PosInf)"
| "jdiv (Num a) _ = Num 0"
| "jdiv a (Num b) = (if b < 0 then jneg a else a)"
| "jdiv _ _ = NaN"

text \<open>Comparisons: every comparison with \<open>NaN\<close> is false.\<close>

fun jlt :: "jsnum \<Rightarrow> jsnum \<Rightarrow> bool" where
  "jlt (Num a) (Num b) = (a < b)"
| "jlt (Num a) PosInf = True"
| "jlt NegInf (Num b) = True"
| "jlt NegInf PosInf = True"
| "jlt _ _ = False"

definition jgt :: "jsnum \<Rightarrow> jsnum \<Rightarrow> bool" where
  "jgt a b = jlt b a"

definition jge :: "jsnum \<Rightarrow> jsnum \<Rightarrow> bool" where
  "jge a b = (a \<noteq> NaN \<and> b \<noteq> NaN \<and> \<not> jlt a b)"

text \<open>
  \<^verbatim>\<open>Math.abs\<close>, \<^verbatim>\<open>Math.sqrt\<close>, \<^verbatim>\<open>Math.pow(x, 2)\<close> and \<^verbatim>\<open>Math.max\<close>. The square
  root is the correctly rounded one of the hardware; \<^verbatim>\<open>Math.pow\<close> with exponent 2 is
  the rounded product \<open>x * x\<close>.
\<close>

fun Math_abs :: "jsnum \<Rightarrow> jsnum" where
  "Math_abs (Num a) = Num \<bar>a\<bar>"
| "Math_abs PosInf = PosInf"
| "Math_abs NegInf = PosInf"
| "Math_abs NaN = NaN"

fun Math_sqrt :: "jsnum \<Rightarrow> jsnum" where
  "Math_sqrt (Num a) = (if a < 0 then NaN else fl (sqrt a))"
| "Math_sqrt PosInf = PosInf"
| "Math_sqrt NegInf = NaN"
| "Math_sqrt NaN = NaN"

fun Math_pow2 :: "jsnum \<Rightarrow> jsnum" where
  "Math_pow2 (Num a) = fl (a * a)"
| "Math_pow2 PosInf = PosInf"
| "Math_pow2 NegInf = PosInf"
| "Math_pow2 NaN = NaN"

definition Math_max :: "jsnum \<Rightarrow> jsnum \<Rightarrow> jsnum" where
  "Math_max a b = (if a = NaN \<or> b = NaN then NaN else if jlt a b then b else a)"

text \<open>
  \<^verbatim>\<open>v || 0\<close> on a number: zero and \<open>NaN\<close> are falsy. \<^verbatim>\<open>xs[i]\<close> read as a number:
  an index out of range gives \<^verbatim>\<open>undefined\<close>, which arithmetic turns into \<open>NaN\<close>.
\<close>

definition or_zero :: "jsnum \<Rightarrow> jsnum" where
  "or_zero v = (if v = NaN \<or> v = Num 0 then Num 0 else v)"

definition at_num :: "jsnum list \<Rightarrow> nat \<Rightarrow> jsnum" where
  "at_num xs i = (if i < length xs then xs ! i else NaN)"

definition array_length :: "'a list \<Rightarrow> jsnum" where
  "array_length xs = Num (real (length xs))"

section \<open>The estimators of \<^verbatim>\<open>server.js\<close>\<close>

text \<open>\<^verbatim>\<open>CONFIG.ML_FEATURES\<close>: the master switch and one flag for each estimator.\<close>

record ml_features =
  enabled :: bool
  linearRegression :: bool
  classification :: bool
  timeSeriesForecasting :: bool
  anomalyDetection :: bool
  clustering :: bool

definition ML_FEATURES :: ml_features where
  "ML_FEATURES = \<lparr> enabled = True, linearRegression = True, classification = True,
     timeSeriesForecasting = True, anomalyDetection = True, clustering = True \<rparr>"

record regression =
  slope :: jsnum
  intercept :: jsnum

text \<open>The four \<^verbatim>\<open>reduce\<close> calls of \<^verbatim>\<open>simpleLinearRegression\<close> are left folds from 0.\<close>

definition sum_reduce :: "jsnum list \<Rightarrow> jsnum" where
  "sum_reduce xs = foldl jadd (Num 0) xs"

definition sumXY_reduce :: "jsnum list \<Rightarrow> jsnum list \<Rightarrow> jsnum" where
  "sumXY_reduce x y =
     foldl (\<lambda>sum (xi, i). jadd sum (jmul xi (at_num y i))) (Num 0) (zip x [0..<length x])"

definition sumXX_reduce :: "jsnum list \<Rightarrow> jsnum" where
  "sumXX_reduce x = foldl (\<lambda>sum xi. jadd sum (jmul xi xi)) (Num 0) x"

definition simpleLinearRegression :: "jsnum list \<Rightarrow> jsnum list \<Rightarrow> regression" where
  "simpleLinearRegression x y =
     (let n = array_length x in
      if length x < 2 then \<lparr> slope = Num 0, intercept = or_zero (at_num y 0) \<rparr>
      else
        let sumX = sum_reduce x;
            sumY = sum_reduce y;
            sumXY = sumXY_reduce x y;
            sumXX = sumXX_reduce x;
            slope = jdiv (jsub (jmul n sumXY) (jmul sumX sumY))
                         (jsub (jmul n sumXX) (jmul sumX sumX));
            intercept = jdiv (jsub sumY (jmul slope sumX)) n
        in \<lparr> slope = slope, intercept = intercept \<rparr>)"

definition predictLinearRegression :: "jsnum \<Rightarrow> jsnum \<Rightarrow> jsnum \<Rightarrow> jsnum" where
  "predictLinearRegression x m c = jadd (jmul m x) c"

text \<open>\<^verbatim>\<open>null\<close> is \<open>None\<close>. The indices \<open>1..n\<close> come from \<^verbatim>\<open>Array.from\<close>.\<close>

definition predictEmploymentMissing :: "ml_features \<Rightarrow> jsnum list \<Rightarrow> jsnum option" where
  "predictEmploymentMissing cfg historical =
     (if \<not> enabled cfg \<or> \<not> linearRegression cfg then None
      else
        let validData = filter (\<lambda>val. jgt val (Num 0)) historical in
        if length validData < 2 then None
        else
          let x = map (\<lambda>i. Num (real (i + 1))) [0..<length validData];
              r = simpleLinearRegression x validData;
              nextX = Num (real (length validData + 1))
          in Some (Math_max (Num 0) (predictLinearRegression nextX (slope r) (intercept r))))"

definition classifyPaymentSpeed :: "ml_features \<Rightarrow> jsnum \<Rightarrow> jsnum list \<Rightarrow> string option" where
  "classifyPaymentSpeed cfg employment historical =
     (if \<not> enabled cfg \<or> \<not> classification cfg then None
      else
        let avgEmployment = jdiv (sum_reduce historical) (array_length historical);
            improving = jgt employment avgEmployment
        in if improving \<and> jgt employment (Num 100000) then Some ''Good''
           else if improving \<and> jgt employment (Num 50000) then Some ''Okay''
           else Some ''Bad'')"

text \<open>The literal \<^verbatim>\<open>0.3\<close> is the double nearest to three tenths.\<close>

definition alpha :: jsnum where
  "alpha = fl (3 / 10)"

text \<open>The smoothing loop of \<^verbatim>\<open>forecastTimeSeries\<close>, from index \<open>i\<close> on.\<close>

function forecast_loop :: "jsnum list \<Rightarrow> nat \<Rightarrow> jsnum \<Rightarrow> jsnum" where
  "forecast_loop historical i smoothed =
     (if i < length historical
      then forecast_loop historical (i + 1)
             (jadd (jmul alpha (historical ! i)) (jmul (jsub (Num 1) alpha) smoothed))
      else smoothed)"
  by pat_completeness auto
termination
  by (relation "measure (\<lambda>(historical, i, smoothed). length historical - i)") auto

declare forecast_loop.simps [simp del]

definition forecastTimeSeries :: "ml_features \<Rightarrow> jsnum list \<Rightarrow> jsnum option" where
  "forecastTimeSeries cfg historical =
     (if \<not> enabled cfg \<or> \<not> timeSeriesForecasting cfg then None
      else Some (Math_max (Num 0) (forecast_loop historical 1 (at_num historical 0))))"

definition mean_of :: "jsnum list \<Rightarrow> jsnum" where
  "mean_of historical = jdiv (sum_reduce historical) (array_length historical)"

definition variance_of :: "jsnum list \<Rightarrow> jsnum" where
  "variance_of historical =
     jdiv (foldl (\<lambda>sum val. jadd sum (Math_pow2 (jsub val (mean_of historical)))) (Num 0) historical)
          (array_length historical)"

definition stdDev_of :: "jsnum list \<Rightarrow> jsnum" where
  "stdDev_of historical = Math_sqrt (variance_of historical)"

definition detectAnomaly :: "ml_features \<Rightarrow> jsnum \<Rightarrow> jsnum list \<Rightarrow> bool" where
  "detectAnomaly cfg v historical =
     (if \<not> enabled cfg \<or> \<not> anomalyDetection cfg then False
      else
        let mean = mean_of historical;
            stdDev = stdDev_of historical;
            zScore = Math_abs (jdiv (jsub v mean) stdDev)
        in jgt zScore (Num 2))"

text \<open>
  \<^verbatim>\<open>clusterDistricts\<close>: the result object is keyed by the centroid index; a map from
  the index to the list of district identifiers pushed so far.
\<close>

record district_point =
  point_id :: string
  employment :: jsnum
  paymentSpeed :: jsnum

definition centroids :: "(jsnum \<times> jsnum) list" where
  "centroids = [(Num 150000, Num 80), (Num 75000, Num 50), (Num 25000, Num 20)]"

definition distance_to :: "district_point \<Rightarrow> jsnum \<times> jsnum \<Rightarrow> jsnum" where
  "distance_to district centroid =
     Math_sqrt (jadd (Math_pow2 (jsub (employment district) (fst centroid)))
                     (Math_pow2 (jsub (paymentSpeed district) (snd centroid))))"

definition nearest_step :: "district_point \<Rightarrow> jsnum \<times> nat \<Rightarrow> (jsnum \<times> jsnum) \<times> nat \<Rightarrow> jsnum \<times> nat" where
  "nearest_step district acc ci =
     (let distance = distance_to district (fst ci) in
      if jlt distance (fst acc) then (distance, snd ci) else acc)"

definition nearest_centroid :: "district_point \<Rightarrow> nat" where
  "nearest_centroid district =
     snd (foldl (nearest_step district) (PosInf, 0) (zip centroids [0..<length centroids]))"

definition push_cluster :: "(nat \<rightharpoonup> string list) \<Rightarrow> district_point \<Rightarrow> (nat \<rightharpoonup> string list)" where
  "push_cluster clusters district =
     (let clusterId = nearest_centroid district in
      clusters(clusterId \<mapsto> (case clusters clusterId of None \<Rightarrow> [] | Some ids \<Rightarrow> ids) @ [point_id district]))"

definition clusterDistricts :: "ml_features \<Rightarrow> district_point list \<Rightarrow> (nat \<rightharpoonup> string list)" where
  "clusterDistricts cfg districtsData =
     (if \<not> enabled cfg \<or> \<not> clustering cfg then Map.empty
      else foldl push_cluster Map.empty districtsData)"

section \<open>JavaScript values, strings and objects\<close>

text \<open>
  A row of the snapshot is a JSON object whose fields hold scalars. A \<open>char\<close> stands
  for a UTF-16 code unit below 256. What the host provides and the source does not define
  is a parameter of the model: the parsing of a string as a number (\<^verbatim>\<open>parseFloat\<close>,
  \<^verbatim>\<open>Number\<close>), the collation behind \<^verbatim>\<open>localeCompare\<close>, and the digits of a
  number that is not an integer below \<open>10\<^sup>2\<^sup>1\<close>.
\<close>

datatype jsval = JUndefined | JNull | JBool bool | JNum jsnum | JStr string

record host =
  parseFloat_string :: "string \<Rightarrow> jsnum"
  Number_string :: "string \<Rightarrow> jsnum"
  localeCompare :: "string \<Rightarrow> string \<Rightarrow> int"
  toString_real :: "real \<Rightarrow> string"

text \<open>
  An object is the list of its own properties in creation order, with distinct keys.
  Assignment to an existing key keeps its place. Enumeration (\<^verbatim>\<open>Object.keys\<close>,
  \<^verbatim>\<open>for ... in\<close>) visits the array-index keys first, in ascending numeric order, and
  then the other keys in creation order; \<open>obj_entries\<close> pairs each enumerated key with
  the value that reading the object at this key gives.
\<close>

type_synonym 'v jsobj = "(string \<times> 'v) list"

definition obj_get :: "'v jsobj \<Rightarrow> string \<Rightarrow> 'v option" where
  "obj_get obj k = map_of obj k"

fun obj_set :: "'v jsobj \<Rightarrow> string \<Rightarrow> 'v \<Rightarrow> 'v jsobj" where
  "obj_set [] k v = [(k, v)]"
| "obj_set ((k', v') # obj) k v =
     (if k' = k then (k, v) # obj else (k', v') # obj_set obj k v)"

definition is_digit :: "char \<Rightarrow> bool" where
  "is_digit c = (c \<in> set ''0123456789'')"

definition dec_val :: "string \<Rightarrow> nat" where
  "dec_val s = foldl (\<lambda>n c. 10 * n + (of_char c - 48)) 0 s"

definition is_array_index :: "string \<Rightarrow> bool" where
  "is_array_index s =
     (s \<noteq> [] \<and> list_all is_digit s \<and> (s = ''0'' \<or> hd s \<noteq> CHR ''0'') \<and> dec_val s < 2 ^ 32 - 1)"

definition obj_entries :: "'v jsobj \<Rightarrow> (string \<times> 'v) list" where
  "obj_entries obj =
     sort_key (\<lambda>p. dec_val (fst p)) (filter (\<lambda>p. is_array_index (fst p)) obj)
       @ filter (\<lambda>p. \<not> is_array_index (fst p)) obj"

definition obj_keys :: "'v jsobj \<Rightarrow> string list" where
  "obj_keys obj = map fst (obj_entries obj)"

text \<open>The properties every object inherits from \<^verbatim>\<open>Object.prototype\<close>.\<close>

definition object_prototype_keys :: "string list" where
  "object_prototype_keys =
     [''constructor'', ''__defineGetter__'', ''__defineSetter__'', ''hasOwnProperty'',
      ''__lookupGetter__'', ''__lookupSetter__'', ''isPrototypeOf'', ''propertyIsEnumerable'',
      ''toString'', ''valueOf'', ''__proto__'', ''toLocaleString'']"

type_synonym row = "jsval jsobj"

text \<open>\<^verbatim>\<open>row[field]\<close> for a field name that \<^verbatim>\<open>Object.prototype\<close> does not have.\<close>

definition row_get :: "row \<Rightarrow> string \<Rightarrow> jsval" where
  "row_get row field = (case obj_get row field of None \<Rightarrow> JUndefined | Some v \<Rightarrow> v)"

subsection \<open>Numbers as strings\<close>

definition digit_char :: "nat \<Rightarrow> char" where
  "digit_char d = char_of (48 + d)"

function digits_of :: "nat \<Rightarrow> string" where
  "digits_of n = (if n < 10 then [digit_char n] else digits_of (n div 10) @ [digit_char (n mod 10)])"
  by pat_completeness auto
termination
  by (relation "measure (\<lambda>n. n)") auto

declare digits_of.simps [simp del]

definition is_integer :: "real \<Rightarrow> bool" where
  "is_integer r = (r = of_int \<lfloor>r\<rfloor>)"

definition Number_toString :: "host \<Rightarrow> jsnum \<Rightarrow> string" where
  "Number_toString H v =
     (case v of
        NaN \<Rightarrow> ''NaN''
      | PosInf \<Rightarrow> ''Infinity''
      | NegInf \<Rightarrow> ''-Infinity''
      | Num r \<Rightarrow>
          if is_integer r \<and> \<bar>r\<bar> < 10 ^ 21
          then (if r < 0 then ''-'' else '''') @ digits_of (nat \<lfloor>\<bar>r\<bar>\<rfloor>)
          else toString_real H r)"


definition ToString :: "host \<Rightarrow> jsval \<Rightarrow> string" where
  "ToString H v =
     (case v of
        JUndefined \<Rightarrow> ''undefined''
      | JNull \<Rightarrow> ''null''
      | JBool b \<Rightarrow> (if b then ''true'' else ''false'')
      | JNum n \<Rightarrow> Number_toString H n
      | JStr s \<Rightarrow> s)"


subsection \<open>Data quality helpers\<close>

definition MAPPINGS_districtId :: string where
  "MAPPINGS_districtId = ''district_code''"

definition MAPPINGS_districtName :: string where
  "MAPPINGS_districtName = ''district_name''"

definition MAPPINGS_peopleEmployed :: string where
  "MAPPINGS_peopleEmployed = ''Total_Individuals_Worked''"

definition MAPPINGS_paymentSpeedValue :: string where
  "MAPPINGS_paymentSpeedValue = ''percentage_payments_gererated_within_15_days''"

text \<open>White space and line terminators among the code units below 256.\<close>

definition is_white_space :: "char \<Rightarrow> bool" where
  "is_white_space c = (of_char c \<in> {9, 10, 11, 12, 13, 32, 160 :: nat})"

definition trim :: "string \<Rightarrow> string" where
  "trim s = rev (dropWhile is_white_space (rev (dropWhile is_white_space s)))"

definition isValidString :: "jsval \<Rightarrow> bool" where
  "isValidString v =
     (v \<noteq> JNull \<and> v \<noteq> JUndefined \<and> (case v of JStr s \<Rightarrow> trim s \<noteq> '''' | _ \<Rightarrow> False))"

text \<open>
  \<^verbatim>\<open>parseFloat\<close> reads its argument as a string, \<^verbatim>\<open>isFinite\<close> as a number. Only
  the string forms of numbers and strings can parse.
\<close>

definition parseFloat :: "host \<Rightarrow> jsval \<Rightarrow> jsnum" where
  "parseFloat H v =
     (case v of JNum n \<Rightarrow> n | JStr s \<Rightarrow> parseFloat_string H s | _ \<Rightarrow> NaN)"

definition ToNumber :: "host \<Rightarrow> jsval \<Rightarrow> jsnum" where
  "ToNumber H v =
     (case v of
        JUndefined \<Rightarrow> NaN
      | JNull \<Rightarrow> Num 0
      | JBool b \<Rightarrow> (if b then Num 1 else Num 0)
      | JNum n \<Rightarrow> n
      | JStr s \<Rightarrow> Number_string H s)"

definition isFinite :: "jsnum \<Rightarrow> bool" where
  "isFinite n = (case n of Num _ \<Rightarrow> True | _ \<Rightarrow> False)"

definition isValidNumeric :: "host \<Rightarrow> jsval \<Rightarrow> bool" where
  "isValidNumeric H v = (\<not> (parseFloat H v = NaN) \<and> isFinite (ToNumber H v))"

definition parseNumericSafe :: "host \<Rightarrow> jsval \<Rightarrow> jsnum \<Rightarrow> jsnum" where
  "parseNumericSafe H v defaultValue = (if isValidNumeric H v then parseFloat H v else defaultValue)"

text \<open>Only the check of the district identifier decides; the other checks log a warning.\<close>

definition validateDistrictData :: "row \<Rightarrow> bool" where
  "validateDistrictData row =
     (let districtId = row_get row MAPPINGS_districtId in
      if \<not> isValidString districtId then False else True)"

section \<open>The district store and its rebuild\<close>

datatype error = TypeError

record entry =
  raw :: row
  historicalEmployed :: "jsnum list"

record metrics =
  totalRows :: nat
  validRows :: nat
  invalidRows :: nat
  skippedDistricts :: nat
  completenessScore :: jsnum

record state =
  csvData :: "entry jsobj"
  dataQualityMetrics :: metrics

definition initial_state :: state where
  "initial_state =
     \<lparr> csvData = [],
       dataQualityMetrics = \<lparr> totalRows = 0, validRows = 0, invalidRows = 0,
         skippedDistricts = 0, completenessScore = Num 0 \<rparr> \<rparr>"

text \<open>The local variables of the first loop of \<^verbatim>\<open>loadDataFromCloud\<close>.\<close>

record ingest =
  dataMap :: "row list jsobj"
  rowCount :: nat
  validRowCount :: nat
  invalidRowCount :: nat
  skippedCount :: nat

text \<open>
  One turn of \<^verbatim>\<open>data.forEach\<close>. For a key that \<^verbatim>\<open>dataMap\<close> does not own,
  \<^verbatim>\<open>dataMap[districtId]\<close> reads \<^verbatim>\<open>Object.prototype\<close>: what it finds there is truthy
  and has no \<^verbatim>\<open>push\<close>, so the call raises.
\<close>

definition ingest_row :: "host \<Rightarrow> ingest \<Rightarrow> row \<Rightarrow> error + ingest" where
  "ingest_row H acc row =
     (let acc = acc\<lparr> rowCount := rowCount acc + 1 \<rparr>;
          districtId = ToString H (row_get row MAPPINGS_districtId)
      in if \<not> validateDistrictData row
         then Inr (acc\<lparr> invalidRowCount := invalidRowCount acc + 1,
                         skippedCount := skippedCount acc + 1 \<rparr>)
         else
           let acc = acc\<lparr> validRowCount := validRowCount acc + 1 \<rparr> in
           case obj_get (dataMap acc) districtId of
             Some rows \<Rightarrow> Inr (acc\<lparr> dataMap := obj_set (dataMap acc) districtId (rows @ [row]) \<rparr>)
           | None \<Rightarrow>
               if districtId \<in> set object_prototype_keys then Inl TypeError
               else Inr (acc\<lparr> dataMap := obj_set (dataMap acc) districtId [row] \<rparr>))"

fun ingest_rows :: "host \<Rightarrow> ingest \<Rightarrow> row list \<Rightarrow> error + ingest" where
  "ingest_rows H acc [] = Inr acc"
| "ingest_rows H acc (row # data) =
     (case ingest_row H acc row of
        Inl e \<Rightarrow> Inl e
      | Inr acc' \<Rightarrow> ingest_rows H acc' data)"

text \<open>
  The comparator \<^verbatim>\<open>(a, b) => b.month.localeCompare(a.month)\<close>: the call raises
  unless \<^verbatim>\<open>b.month\<close> is a string; \<^verbatim>\<open>a.month\<close> is converted to one.
\<close>

definition compare_month :: "host \<Rightarrow> row \<Rightarrow> row \<Rightarrow> error + int" where
  "compare_month H a b =
     (case row_get b ''month'' of
        JStr s \<Rightarrow> Inr (localeCompare H s (ToString H (row_get a ''month'')))
      | _ \<Rightarrow> Inl TypeError)"

text \<open>
  \<^verbatim>\<open>Array.prototype.sort\<close> is stable and leaves the sequence of comparator calls to
  the engine. The model inserts each element in turn into the sorted prefix, calling the
  comparator on the element and the ones before it, from the left, and moves it in front
  of the first one it compares less than. When no call raises and the comparator orders
  by a key, the result is the stable sort by that key, as with every engine; which calls
  are made, and so whether one of them raises, is particular to the model.
\<close>

fun insert_sorted :: "('a \<Rightarrow> 'a \<Rightarrow> error + int) \<Rightarrow> 'a \<Rightarrow> 'a list \<Rightarrow> error + 'a list" where
  "insert_sorted cmp x [] = Inr [x]"
| "insert_sorted cmp x (y # ys) =
     (case cmp x y of
        Inl e \<Rightarrow> Inl e
      | Inr c \<Rightarrow>
          if c < 0 then Inr (x # y # ys)
          else (case insert_sorted cmp x ys of
                  Inl e \<Rightarrow> Inl e
                | Inr zs \<Rightarrow> Inr (y # zs)))"

fun sort_from :: "('a \<Rightarrow> 'a \<Rightarrow> error + int) \<Rightarrow> 'a list \<Rightarrow> 'a list \<Rightarrow> error + 'a list" where
  "sort_from cmp acc [] = Inr acc"
| "sort_from cmp acc (x # xs) =
     (case insert_sorted cmp x acc of
        Inl e \<Rightarrow> Inl e
      | Inr acc' \<Rightarrow> sort_from cmp acc' xs)"

definition array_sort :: "('a \<Rightarrow> 'a \<Rightarrow> error + int) \<Rightarrow> 'a list \<Rightarrow> error + 'a list" where
  "array_sort cmp xs = sort_from cmp [] xs"

text \<open>\<^verbatim>\<open>while (historical.length < 6) historical.push(historical[0] || 0)\<close>.\<close>

function pad_history :: "jsnum list \<Rightarrow> jsnum list" where
  "pad_history historical =
     (if length historical < 6
      then pad_history (historical @ [or_zero (at_num historical 0)])
      else historical)"
  by pat_completeness auto
termination
  by (relation "measure (\<lambda>historical. 6 - length historical)") auto

declare pad_history.simps [simp del]

text \<open>
  The body of the second loop for one district, up to the assignment to the store:
  sort the rows of the district, take the first as the latest (reading \<^verbatim>\<open>latest.month\<close>
  for the log raises when there is none), parse and pad the history.
\<close>

definition build_entry :: "host \<Rightarrow> row list \<Rightarrow> error + entry" where
  "build_entry H rows =
     (case array_sort (compare_month H) rows of
        Inl e \<Rightarrow> Inl e
      | Inr ordered \<Rightarrow>
          (case ordered of
             [] \<Rightarrow> Inl TypeError
           | latest # _ \<Rightarrow>
               let historical =
                     pad_history (map (\<lambda>r. parseNumericSafe H (row_get r MAPPINGS_peopleEmployed) (Num 0))
                                      (take 6 ordered))
               in Inr \<lparr> raw = latest, historicalEmployed = historical \<rparr>))"

text \<open>
  The second loop writes into the store district by district. An exception ends it and
  is caught by the enclosing \<^verbatim>\<open>try\<close>; what was written before stays.
\<close>

fun install_all :: "host \<Rightarrow> (string \<times> row list) list \<Rightarrow> entry jsobj \<Rightarrow> entry jsobj" where
  "install_all H [] store = store"
| "install_all H ((districtId, rows) # rest) store =
     (case build_entry H rows of
        Inl e \<Rightarrow> store
      | Inr en \<Rightarrow> install_all H rest (obj_set store districtId en))"

definition start_ingest :: ingest where
  "start_ingest =
     \<lparr> dataMap = [], rowCount = 0, validRowCount = 0, invalidRowCount = 0, skippedCount = 0 \<rparr>"

text \<open>
  What the request for the snapshot produced: no usable array of rows (the request
  failed, the status was not ok, the body was not a JSON array), or the rows.

  The whole body of \<^verbatim>\<open>loadDataFromCloud\<close> runs inside \<^verbatim>\<open>try\<close>, and the handler only
  logs: the function returns on every input, with the state as the statements before the
  exception left it. The metrics are assigned between the two loops. Log lines are not
  part of the state.
\<close>

datatype fetched = Unavailable | Snapshot "row list"

definition loadDataFromCloud :: "host \<Rightarrow> fetched \<Rightarrow> state \<Rightarrow> state" where
  "loadDataFromCloud H response s =
     (case response of
        Unavailable \<Rightarrow> s
      | Snapshot data \<Rightarrow>
          (case ingest_rows H start_ingest data of
             Inl e \<Rightarrow> s
           | Inr acc \<Rightarrow>
               \<lparr> csvData = install_all H (obj_entries (dataMap acc)) (csvData s),
                 dataQualityMetrics =
                   \<lparr> totalRows = rowCount acc,
                     validRows = validRowCount acc,
                     invalidRows = invalidRowCount acc,
                     skippedDistricts = skippedCount acc,
                     completenessScore =
                       jmul (jdiv (Num (real (validRowCount acc))) (Num (real (rowCount acc))))
                            (Num 100) \<rparr> \<rparr>))"

text \<open>The handler of \<^verbatim>\<open>GET /api/districts\<close>, on the store.\<close>

record district_item =
  item_id :: string
  item_name :: jsval

definition listDistricts :: "entry jsobj \<Rightarrow> district_item list" where
  "listDistricts store =
     map (\<lambda>(districtId, en).
            \<lparr> item_id = districtId,
              item_name = (if isValidString (row_get (raw en) MAPPINGS_districtName)
                           then row_get (raw en) MAPPINGS_districtName
                           else JStr districtId) \<rparr>)
         (filter (\<lambda>(districtId, en). row_get (raw en) ''state_name'' = JStr ''UTTAR PRADESH'')
                 (obj_entries store))"

section \<open>Notions used to state the properties\<close>

text \<open>The stores and metrics that ingestion cycles can produce from the start of the process.\<close>

inductive reachable :: "host \<Rightarrow> state \<Rightarrow> bool" for H :: host where
  start: "reachable H initial_state"
| cycle: "reachable H s \<Longrightarrow> reachable H (loadDataFromCloud H response s)"

text \<open>The accepted rows of district \<open>k\<close> in a snapshot, in the order of the snapshot.\<close>

definition district_rows :: "row list \<Rightarrow> string \<Rightarrow> row list" where
  "district_rows data k =
     filter (\<lambda>row. validateDistrictData row \<and> row_get row MAPPINGS_districtId = JStr k) data"

text \<open>The employment value of a row as the store reads it.\<close>

definition metric :: "host \<Rightarrow> row \<Rightarrow> jsnum" where
  "metric H r = parseNumericSafe H (row_get r MAPPINGS_peopleEmployed) (Num 0)"

text \<open>
  The display name of a listed district: the \<^verbatim>\<open>district_name\<close> of its latest record
  when that is a string with a character that is not white space, else the identifier.
\<close>

definition display_name :: "string \<Rightarrow> entry \<Rightarrow> jsval" where
  "display_name k en =
     (case row_get (raw en) ''district_name'' of
        JStr n \<Rightarrow> if \<exists>c\<in>set n. \<not> is_white_space c then JStr n else JStr k
      | _ \<Rightarrow> JStr k)"

text \<open>The values that are doubles: rounding leaves a finite one as it is.\<close>

definition is_double :: "jsnum \<Rightarrow> bool" where
  "is_double v = (case v of Num x \<Rightarrow> fl x = Num x | _ \<Rightarrow> True)"


text \<open>
  One step of exponential smoothing as the loop computes it:
  \<^verbatim>\<open>alpha * nextActual + (1 - alpha) * smoothed\<close>, each operation rounded.
\<close>

definition blend :: "jsnum \<Rightarrow> jsnum \<Rightarrow> jsnum" where
  "blend smoothed nextActual = jadd (jmul alpha nextActual) (jmul (jsub (Num 1) alpha) smoothed)"


text \<open>
  A host to evaluate examples with: a string of digits parses as the double nearest
  to the decimal number and nothing else parses, strings compare by code units, and the digits of other
  numbers are left open.
\<close>

fun compare_units :: "string \<Rightarrow> string \<Rightarrow> int" where
  "compare_units [] [] = 0"
| "compare_units [] (d # t) = - 1"
| "compare_units (c # s) [] = 1"
| "compare_units (c # s) (d # t) =
     (if (of_char c :: nat) < of_char d then - 1
      else if (of_char d :: nat) < of_char c then 1
      else compare_units s t)"

definition parse_digits :: "string \<Rightarrow> jsnum" where
  "parse_digits s = (if s \<noteq> [] \<and> list_all is_digit s then fl (real (dec_val s)) else NaN)"

definition example_host :: host where
  "example_host =
     \<lparr> parseFloat_string = parse_digits, Number_string = parse_digits,
       localeCompare = compare_units, toString_real = (\<lambda>r. ''?'') \<rparr>"

text \<open>A row of Uttar Pradesh for examples.\<close>

definition example_row :: "string \<Rightarrow> string \<Rightarrow> string \<Rightarrow> jsval \<Rightarrow> row" where
  "example_row code name month worked =
     [(''district_code'', JStr code), (''district_name'', JStr name),
      (''state_name'', JStr ''UTTAR PRADESH''), (''month'', JStr month),
      (''Total_Individuals_Worked'', worked)]"

section \<open>Rounding to binary64\<close>

lemma round_half_even_close: "\<bar>of_int (round_half_even q) - q\<bar> \<le> 1 / 2"
  unfolding round_half_even_def Let_def by (auto; linarith)

lemma round_half_even_int [simp]: "round_half_even (of_int k) = k"
  by (simp add: round_half_even_def)


lemma halvings_bounds: "1 \<le> x \<Longrightarrow> 2 ^ halvings x \<le> x \<and> x < 2 ^ Suc (halvings x)"
proof (induction x rule: halvings.induct)
  case (1 x)
  show ?case
  proof (cases "2 \<le> x")
    case True
    then have "2 ^ halvings (x / 2) \<le> x / 2 \<and> x / 2 < 2 ^ Suc (halvings (x / 2))"
      using "1.IH" by simp
    then show ?thesis using True by (subst (1 2) halvings.simps) simp
  next
    case False
    then show ?thesis using "1.prems" by (subst (1 2) halvings.simps) simp
  qed
qed

lemma doublings_bounds:
  "0 < x \<Longrightarrow> x < 1 \<Longrightarrow>
     doublings k x \<le> k \<and> x * 2 ^ doublings k x < 2 \<and> (doublings k x < k \<longrightarrow> 1 \<le> x * 2 ^ doublings k x)"
proof (induction k x rule: doublings.induct)
  case (1 k x)
  show ?case
  proof (cases "k = 0")
    case True
    then show ?thesis using "1.prems" by (subst (1 2 3 4) doublings.simps) simp
  next
    case k: False
    show ?thesis
    proof (cases "2 * x < 1")
      case True
      then have IH: "doublings (k - 1) (2 * x) \<le> k - 1 \<and> 2 * x * 2 ^ doublings (k - 1) (2 * x) < 2
          \<and> (doublings (k - 1) (2 * x) < k - 1 \<longrightarrow> 1 \<le> 2 * x * 2 ^ doublings (k - 1) (2 * x))"
        using "1.IH" "1.prems" k by simp
      have d: "doublings k x = Suc (doublings (k - 1) (2 * x))"
        using k "1.prems" by (subst doublings.simps) simp
      show ?thesis unfolding d using IH k by (auto simp: mult.assoc mult.left_commute)
    next
      case False
      then have "doublings (k - 1) (2 * x) = 0" by (subst doublings.simps) simp
      then have d: "doublings k x = 1"
        using k "1.prems" by (subst doublings.simps) simp
      show ?thesis unfolding d using False k "1.prems" by (auto simp: mult.commute)
    qed
  qed
qed


lemma powi_neg_nat: "(2::real) powi (- int d) = 1 / 2 ^ d"
  by (simp add: power_int_minus field_simps)

lemma powi_one_minus: "(2::real) powi (1 - int d) = 2 / 2 ^ d"
  using power_int_diff [of "2::real" 1 "int d"] by simp

lemma exponent_of_lower: "0 < x \<Longrightarrow> - 1022 \<le> exponent_of x"
  using doublings_bounds [of x 1022] by (auto simp: exponent_of_def)

lemma exponent_of_upper: "0 < x \<Longrightarrow> x < 2 powi (exponent_of x + 1)"
proof (cases "1 \<le> x")
  case True
  assume "0 < x"
  have "x < 2 ^ Suc (halvings x)" using halvings_bounds [OF True] by simp
  also have "(2::real) ^ Suc (halvings x) = 2 powi (int (halvings x) + 1)"
    by (simp add: power_int_add)
  finally show ?thesis using True by (simp add: exponent_of_def)
next
  case False
  assume pos: "0 < x"
  let ?d = "doublings 1022 x"
  have "x * 2 ^ ?d < 2" using doublings_bounds [of x 1022] pos False by simp
  then have "x < 2 / 2 ^ ?d" by (simp add: field_simps)
  also have "2 / 2 ^ ?d = (2::real) powi (1 - int ?d)"
    by (simp add: powi_one_minus)
  finally show ?thesis using False by (simp add: exponent_of_def)
qed

lemma exponent_of_below:
  assumes "0 < x" "2 powi (- 1022) \<le> x"
  shows "2 powi exponent_of x \<le> x"
proof (cases "1 \<le> x")
  case True
  then show ?thesis using halvings_bounds [OF True] by (simp add: exponent_of_def)
next
  case False
  let ?d = "doublings 1022 x"
  note b = doublings_bounds [of x 1022]
  show ?thesis
  proof (cases "?d < 1022")
    case True
    then have "1 \<le> x * 2 ^ ?d" using b assms False by simp
    then have "1 / 2 ^ ?d \<le> x" by (simp add: field_simps)
    then show ?thesis using False by (simp add: exponent_of_def powi_neg_nat)
  next
    case F: False
    then have "?d = 1022" using b assms False by simp
    then show ?thesis using False assms by (simp add: exponent_of_def)
  qed
qed

lemma exponent_of_subnormal:
  assumes "0 < x" "x < 2 powi (- 1022)"
  shows "exponent_of x = - 1022"
proof -
  have x1: "x < 1"
  proof -
    have "(2::real) powi (- 1022) \<le> 2 powi 0" by (rule power_int_increasing) simp_all
    then show ?thesis using assms by simp
  qed
  let ?d = "doublings 1022 x"
  note b = doublings_bounds [of x 1022]
  have "\<not> ?d < 1022"
  proof
    assume lt: "?d < 1022"
    then have "1 \<le> x * 2 ^ ?d" using b assms x1 by simp
    then have "2 powi (- int ?d) \<le> x" by (simp add: powi_neg_nat field_simps)
    moreover have "(2::real) powi (- 1022) \<le> 2 powi (- int ?d)"
      using lt by (intro power_int_increasing) simp_all
    ultimately show False using assms by simp
  qed
  then have "?d = 1022" using b assms x1 by simp
  then show ?thesis using x1 by (simp add: exponent_of_def)
qed

lemma fl_zero [simp]: "fl 0 = Num 0"
  by (simp add: fl_def)

lemma fl_error:
  assumes "2 powi (- 1022) \<le> \<bar>x\<bar>" "\<bar>x\<bar> < 2 ^ 1023"
  shows "\<exists>r. fl x = Num r \<and> \<bar>r - x\<bar> \<le> \<bar>x\<bar> / 2 ^ 53"
proof -
  have pos: "0 < \<bar>x\<bar>"
  proof -
    have "(0::real) < 2 powi (- 1022)" by simp
    then show ?thesis using assms(1) by linarith
  qed
  then have nz: "x \<noteq> 0" by simp
  define e where "e = exponent_of \<bar>x\<bar>"
  define u :: real where "u = 2 powi (e - 52)"
  define r where "r = of_int (round_half_even (x / u)) * u"
  have u: "0 < u" by (simp add: u_def)
  have le: "2 powi e \<le> \<bar>x\<bar>" unfolding e_def using pos assms(1) by (rule exponent_of_below)
  have "\<bar>r - x\<bar> = u * \<bar>of_int (round_half_even (x / u)) - x / u\<bar>"
    using u by (simp add: r_def abs_mult [symmetric] field_simps abs_of_pos)
  also have "\<dots> \<le> u * (1 / 2)"
    using u round_half_even_close [of "x / u"] by (intro mult_left_mono) simp_all
  also have "u * (1 / 2) = 2 powi e / 2 ^ 53"
    by (simp add: u_def power_int_diff)
  also have "\<dots> \<le> \<bar>x\<bar> / 2 ^ 53" using le by (simp add: divide_right_mono)
  finally have err: "\<bar>r - x\<bar> \<le> \<bar>x\<bar> / 2 ^ 53" .
  have "\<bar>r\<bar> \<le> \<bar>x\<bar> + \<bar>r - x\<bar>" by linarith
  also have "\<dots> \<le> \<bar>x\<bar> + \<bar>x\<bar> / 2 ^ 53" using err by simp
  also have "\<dots> \<le> \<bar>x\<bar> * 2" by (simp add: field_simps)
  also have "\<dots> < 2 ^ 1023 * 2" using assms(2) by simp
  finally have "\<bar>r\<bar> < 2 ^ 1024" by simp
  then have "fl x = Num r"
    using nz by (simp add: fl_def Let_def r_def u_def e_def)
  with err show ?thesis by blast
qed


lemma exponent_of_unique:
  assumes "- 1022 \<le> e" "2 powi e \<le> x" "x < 2 powi (e + 1)"
  shows "exponent_of x = e"
proof -
  have pos: "0 < x"
  proof -
    have "(0::real) < 2 powi e" by simp
    then show ?thesis using assms(2) by linarith
  qed
  have "(2::real) powi (- 1022) \<le> 2 powi e" using assms(1) by (intro power_int_increasing) simp_all
  then have low: "2 powi (- 1022) \<le> x" using assms(2) by simp
  let ?f = "exponent_of x"
  have a: "2 powi ?f \<le> x" using pos low by (rule exponent_of_below)
  have b: "x < 2 powi (?f + 1)" using pos by (rule exponent_of_upper)
  have lt1: "(2::real) powi ?f < 2 powi (e + 1)" using a assms(3) by simp
  have 1: "?f < e + 1"
  proof (rule ccontr)
    assume "\<not> ?f < e + 1"
    then have "(2::real) powi (e + 1) \<le> 2 powi ?f" by (intro power_int_increasing) simp_all
    with lt1 show False by simp
  qed
  have lt2: "(2::real) powi e < 2 powi (?f + 1)" using b assms(2) by simp
  have 2: "e < ?f + 1"
  proof (rule ccontr)
    assume "\<not> e < ?f + 1"
    then have "(2::real) powi (?f + 1) \<le> 2 powi e" by (intro power_int_increasing) simp_all
    with lt2 show False by simp
  qed
  from 1 2 show ?thesis by simp
qed

lemma fl_at_exponent:
  assumes "- 1022 \<le> e" "2 powi e \<le> \<bar>x\<bar>" "\<bar>x\<bar> < 2 powi (e + 1)"
  shows "fl x =
     (let u = 2 powi (e - 52); r = of_int (round_half_even (x / u)) * u
      in if 2 ^ 1024 \<le> \<bar>r\<bar> then (if x < 0 then NegInf else PosInf) else Num r)"
proof -
  have "(0::real) < 2 powi e" by simp
  with assms(2) have "0 < \<bar>x\<bar>" by linarith
  then have "x \<noteq> 0" by simp
  then show ?thesis by (simp add: fl_def exponent_of_unique [OF assms])
qed

lemma fl_of_int:
  assumes "\<bar>k\<bar> < 2 ^ 53"
  shows "fl (of_int k) = Num (of_int k)"
proof (cases "k = 0")
  case True
  then show ?thesis by simp
next
  case False
  let ?x = "\<bar>real_of_int k\<bar>"
  have one: "1 \<le> ?x" using False by (simp flip: of_int_abs)
  define h where "h = halvings ?x"
  have hb: "2 ^ h \<le> ?x" "?x < 2 ^ Suc h" unfolding h_def using halvings_bounds [OF one] by simp_all
  have "?x < 2 ^ 53"
    using assms by (metis of_int_abs of_int_less_iff of_int_numeral of_int_power)
  then have lt: "(2::real) ^ h < 2 ^ 53" using hb(1) by linarith
  have "h < 53" by (rule power_less_imp_less_exp [OF _ lt]) simp
  then have h52: "h \<le> 52" by simp
  have e: "exponent_of ?x = int h" using one by (simp add: exponent_of_def h_def)
  have u: "(2::real) powi (int h - 52) = 1 / 2 ^ (52 - h)"
    using h52 powi_neg_nat [of "52 - h"] by (simp add: of_nat_diff)
  have q: "real_of_int k / (1 / 2 ^ (52 - h)) = of_int (k * 2 ^ (52 - h))" by simp
  have small: "\<bar>real_of_int k\<bar> < 2 ^ 1024"
  proof -
    have "(2::real) ^ 53 \<le> 2 ^ 1024" by (rule power_increasing) simp_all
    then show ?thesis using \<open>?x < 2 ^ 53\<close> by linarith
  qed
  show ?thesis
    using False small unfolding fl_def e u Let_def q round_half_even_int by simp
qed

lemma fl_numeral:
  assumes "numeral n < (2::int) ^ 53"
  shows "fl (numeral n) = Num (numeral n)"
proof -
  have "\<bar>numeral n :: int\<bar> < 2 ^ 53" using assms by simp
  from fl_of_int [OF this] show ?thesis by simp
qed

lemma fl_one: "fl 1 = Num 1"
  using fl_of_int [of 1] by simp

lemma fl_grid:
  assumes "fl x = Num r"
  shows "\<exists>m::int. r = of_int m / 2 ^ 1074"
proof (cases "x = 0")
  case True
  then show ?thesis using assms by (intro exI [of _ 0]) simp
next
  case False
  define e where "e = exponent_of \<bar>x\<bar>"
  have "- 1022 \<le> e" unfolding e_def using False by (intro exponent_of_lower) simp
  define j where "j = nat (e + 1022)"
  have j: "e - 52 = int j - 1074" using \<open>- 1022 \<le> e\<close> by (simp add: j_def)
  have u: "(2::real) powi (e - 52) = 2 ^ j / 2 ^ 1074"
    unfolding j using power_int_diff [of "2::real" "int j" 1074] by simp
  have "r = of_int (round_half_even (x / 2 powi (e - 52))) * 2 powi (e - 52)"
    using assms False by (simp add: fl_def Let_def e_def split: if_splits)
  then have "r = of_int (round_half_even (x / 2 powi (e - 52)) * 2 ^ j) / 2 ^ 1074"
    by (simp add: u)
  then show ?thesis by blast
qed

lemma fl_nonzero:
  assumes "x = of_int m / 2 ^ 1074" "x \<noteq> 0"
  shows "fl x \<noteq> Num 0"
proof
  assume z: "fl x = Num 0"
  have m: "m \<noteq> 0" using assms by auto
  then have "1 \<le> \<bar>real_of_int m\<bar>" by (simp flip: of_int_abs)
  then have big: "1 / 2 ^ 1074 \<le> \<bar>x\<bar>" by (simp add: assms(1) divide_right_mono)
  define e where "e = exponent_of \<bar>x\<bar>"
  define u :: real where "u = 2 powi (e - 52)"
  have u: "0 < u" by (simp add: u_def)
  have "of_int (round_half_even (x / u)) * u = 0"
    using z assms(2) by (simp add: fl_def Let_def e_def u_def split: if_splits)
  then have "round_half_even (x / u) = 0" using u by simp
  then have "\<bar>x / u\<bar> \<le> 1 / 2" using round_half_even_close [of "x / u"] by simp
  then have half: "\<bar>x\<bar> \<le> u / 2" using u by (simp add: field_simps abs_of_pos)
  show False
  proof (cases "2 powi (- 1022) \<le> \<bar>x\<bar>")
    case True
    then have "2 powi e \<le> \<bar>x\<bar>" unfolding e_def using assms(2) by (intro exponent_of_below) simp_all
    moreover have "u / 2 < 2 powi e" by (simp add: u_def power_int_diff)
    ultimately show False using half by linarith
  next
    case False
    then have "e = - 1022" unfolding e_def using assms(2) by (intro exponent_of_subnormal) simp_all
    then have "u = 1 / 2 ^ 1074" using powi_neg_nat [of 1074] by (simp add: u_def)
    then show False using half big by simp
  qed
qed


lemma fl_not_NaN [simp]: "fl x \<noteq> NaN"
  by (simp add: fl_def Let_def)

lemma fl_Num_bound: "fl x = Num q \<Longrightarrow> \<bar>q\<bar> < 2 ^ 1024"
  by (auto simp: fl_def Let_def split: if_splits)

lemma fl_finite:
  assumes "\<bar>x\<bar> < 2 ^ 1023"
  shows "\<exists>q. fl x = Num q"
proof (cases "x = 0")
  case True
  then show ?thesis by simp
next
  case False
  define e where "e = exponent_of \<bar>x\<bar>"
  define u :: real where "u = 2 powi (e - 52)"
  define r where "r = of_int (round_half_even (x / u)) * u"
  have u: "0 < u" by (simp add: u_def)
  have "e \<le> 1022"
  proof (cases "2 powi (- 1022) \<le> \<bar>x\<bar>")
    case True
    then have "2 powi e \<le> \<bar>x\<bar>" unfolding e_def using False by (intro exponent_of_below) simp_all
    then have lt: "(2::real) powi e < 2 powi 1023" using assms by simp
    show ?thesis
    proof (rule ccontr)
      assume "\<not> e \<le> 1022"
      then have "1023 \<le> e" by simp
      then have "(2::real) powi 1023 \<le> 2 powi e" by (intro power_int_increasing) simp_all
      with lt show False by simp
    qed
  next
    case False
    then have "e = - 1022" unfolding e_def using \<open>x \<noteq> 0\<close> by (intro exponent_of_subnormal) simp_all
    then show ?thesis by simp
  qed
  then have "u \<le> 2 powi 970" unfolding u_def by (intro power_int_increasing) simp_all
  then have u970: "u \<le> 2 ^ 970" by simp
  have "\<bar>r - x\<bar> = u * \<bar>of_int (round_half_even (x / u)) - x / u\<bar>"
    using u by (simp add: r_def abs_mult [symmetric] field_simps abs_of_pos)
  also have "\<dots> \<le> u * (1 / 2)"
    using u round_half_even_close [of "x / u"] by (intro mult_left_mono) simp_all
  finally have "\<bar>r - x\<bar> \<le> u / 2" by simp
  then have "\<bar>r\<bar> \<le> \<bar>x\<bar> + u" using u by linarith
  also have "\<dots> < 2 ^ 1023 + 2 ^ 970" using assms u970 by linarith
  also have "(2::real) ^ 1023 + 2 ^ 970 \<le> 2 ^ 1023 + 2 ^ 1023"
    by (intro add_left_mono power_increasing) simp_all
  finally have "\<bar>r\<bar> < 2 ^ 1024" by simp
  then have "fl x = Num r" using False by (simp add: fl_def Let_def r_def u_def e_def)
  then show ?thesis by blast
qed

section \<open>Anomaly detection\<close>

lemma jdiv_Num_grid:
  assumes "jdiv a (Num b) = Num r"
  shows "\<exists>m::int. r = of_int m / 2 ^ 1074"
proof (cases a)
  case (Num x)
  then have "fl (x / b) = Num r" using assms by (simp split: if_splits)
  then show ?thesis by (rule fl_grid)
qed (use assms in \<open>simp_all split: if_splits\<close>)

lemma foldl_not_finite:
  assumes "\<And>val. t val = PosInf \<or> t val = NaN"
    and "acc = PosInf \<or> acc = NaN \<or> (xs \<noteq> [] \<and> (\<exists>a. acc = Num a))"
  shows "foldl (\<lambda>sum val. jadd sum (t val)) acc xs = PosInf
       \<or> foldl (\<lambda>sum val. jadd sum (t val)) acc xs = NaN"
  using assms(2)
proof (induction xs arbitrary: acc)
  case Nil
  then show ?case by simp
next
  case (Cons x xs)
  have "jadd acc (t x) = PosInf \<or> jadd acc (t x) = NaN"
    using assms(1) [of x] Cons.prems by (cases acc) auto
  then have "jadd acc (t x) = PosInf \<or> jadd acc (t x) = NaN
      \<or> (xs \<noteq> [] \<and> (\<exists>a. jadd acc (t x) = Num a))" by blast
  from Cons.IH [OF this] show ?case by simp
qed

lemma pow2_not_finite:
  assumes "m = PosInf \<or> m = NegInf \<or> m = NaN"
  shows "Math_pow2 (jsub val m) = PosInf \<or> Math_pow2 (jsub val m) = NaN"
  using assms by (cases val) (auto simp: jsub_def)

lemma stdDev_not_finite:
  assumes "mean_of historical = PosInf \<or> mean_of historical = NegInf \<or> mean_of historical = NaN"
  shows "stdDev_of historical \<noteq> Num 0"
proof (cases "historical = []")
  case True
  then show ?thesis by (simp add: stdDev_of_def variance_of_def array_length_def)
next
  case False
  let ?s = "foldl (\<lambda>sum val. jadd sum (Math_pow2 (jsub val (mean_of historical)))) (Num 0) historical"
  have "?s = PosInf \<or> ?s = NaN"
    using pow2_not_finite [OF assms] False by (intro foldl_not_finite) auto
  then show ?thesis
    by (auto simp: stdDev_of_def variance_of_def array_length_def)
qed

lemma stdDev_zero_mean:
  assumes "stdDev_of historical = Num 0"
  shows "\<exists>m::int. mean_of historical = Num (of_int m / 2 ^ 1074)"
proof (cases "mean_of historical")
  case (Num r)
  then have "\<exists>m::int. r = of_int m / 2 ^ 1074"
    unfolding mean_of_def array_length_def by (rule jdiv_Num_grid)
  then show ?thesis using Num by auto
qed (use assms stdDev_not_finite [of historical] in auto)

lemma is_double_grid:
  assumes "is_double (Num x)"
  shows "\<exists>m::int. x = of_int m / 2 ^ 1074"
  using assms fl_grid [of x x] by (simp add: is_double_def)

lemma zero_divisor_anomaly:
  assumes "is_double v" "mr = of_int m / 2 ^ 1074"
  shows "jgt (Math_abs (jdiv (jsub v (Num mr)) (Num 0))) (Num 2) = (v \<noteq> NaN \<and> v \<noteq> Num mr)"
proof (cases v)
  case (Num x)
  obtain k :: int where k: "x = of_int k / 2 ^ 1074" using is_double_grid assms(1) Num by blast
  show ?thesis
  proof (cases "x = mr")
    case True
    then show ?thesis by (simp add: Num jsub_def jgt_def)
  next
    case False
    have d: "x + - mr = of_int (k - m) / 2 ^ 1074"
      unfolding k assms(2) by (simp add: diff_divide_distrib)
    have "x + - mr \<noteq> 0" using False by simp
    with d have nz: "fl (x + - mr) \<noteq> Num 0" by (rule fl_nonzero)
    show ?thesis
      using nz False by (cases "fl (x + - mr)") (auto simp: Num jsub_def jgt_def)
  qed
qed (simp_all add: jsub_def jgt_def)

lemma foldl_jadd_replicate:
  "\<bar>a\<bar> + int k * \<bar>c\<bar> < 2 ^ 53 \<Longrightarrow>
   foldl jadd (Num (of_int a)) (replicate k (Num (of_int c))) = Num (of_int (a + int k * c))"
proof (induction k arbitrary: a)
  case 0
  then show ?case by simp
next
  case (Suc k)
  have b: "\<bar>a + c\<bar> + int k * \<bar>c\<bar> < 2 ^ 53" using Suc.prems by (simp add: algebra_simps)
  have "0 \<le> int k * \<bar>c\<bar>" by simp
  with b have "\<bar>a + c\<bar> < 2 ^ 53" by linarith
  then have "fl (of_int (a + c)) = Num (of_int (a + c))" by (rule fl_of_int)
  then have "jadd (Num (of_int a)) (Num (of_int c)) = Num (of_int (a + c))" by simp
  then show ?case using Suc.IH [OF b] by (simp add: algebra_simps)
qed

lemma mean_of_replicate:
  assumes "0 < n" "int n * \<bar>c\<bar> < 2 ^ 53"
  shows "mean_of (replicate n (Num (of_int c))) = Num (of_int c)"
proof -
  have "0 \<le> (int n - 1) * \<bar>c\<bar>" using assms(1) by simp
  then have "\<bar>c\<bar> \<le> int n * \<bar>c\<bar>" by (simp add: algebra_simps)
  then have "\<bar>c\<bar> < 2 ^ 53" using assms(2) by linarith
  then have c: "fl (of_int c) = Num (of_int c)" by (rule fl_of_int)
  have "sum_reduce (replicate n (Num (of_int c))) = Num (of_int (int n * c))"
    using foldl_jadd_replicate [of 0 n c] assms(2) by (simp add: sum_reduce_def)
  then show ?thesis using assms(1) c by (simp add: mean_of_def array_length_def)
qed

lemma foldl_zero_terms:
  "foldl (\<lambda>sum val. jadd sum (Math_pow2 (jsub val (Num c)))) (Num 0) (replicate n (Num c)) = Num 0"
  by (induction n) (simp_all add: jsub_def)

lemma stdDev_of_replicate:
  assumes "0 < n" "int n * \<bar>c\<bar> < 2 ^ 53"
  shows "stdDev_of (replicate n (Num (of_int c))) = Num 0"
  using assms(1)
  by (simp add: stdDev_of_def variance_of_def mean_of_replicate [OF assms] foldl_zero_terms
      array_length_def)

text \<open>
  Claim C3, as the code has it. \<^verbatim>\<open>detectAnomaly\<close> has no guard: it divides by the
  standard deviation it computed. When that is zero the division yields an infinity or
  \<open>NaN\<close> and nothing is raised, and for every query value that is a double the value is
  reported anomalous exactly when it is a number different from the computed mean; only
  a value equal to the mean, or \<open>NaN\<close>, is reported not anomalous. A history of \<open>n > 0\<close>
  copies of an integer \<open>c\<close> with \<open>n * |c| < 2^53\<close> has the computed mean \<open>c\<close> and the
  computed standard deviation zero.
\<close>

theorem detectAnomaly_zero_stdDev:
  "(stdDev_of historical = Num 0 \<and> is_double v \<longrightarrow>
      detectAnomaly ML_FEATURES v historical = (v \<noteq> NaN \<and> v \<noteq> mean_of historical))
   \<and> (0 < n \<and> int n * \<bar>c\<bar> < 2 ^ 53 \<longrightarrow>
        stdDev_of (replicate n (Num (of_int c))) = Num 0
      \<and> mean_of (replicate n (Num (of_int c))) = Num (of_int c))"
proof (intro conjI impI)
  assume a: "stdDev_of historical = Num 0 \<and> is_double v"
  then obtain m :: int where m: "mean_of historical = Num (of_int m / 2 ^ 1074)"
    using stdDev_zero_mean by blast
  from a have "jgt (Math_abs (jdiv (jsub v (mean_of historical)) (Num 0))) (Num 2)
      = (v \<noteq> NaN \<and> v \<noteq> mean_of historical)"
    unfolding m by (intro zero_divisor_anomaly [where m = m]) simp_all
  then show "detectAnomaly ML_FEATURES v historical = (v \<noteq> NaN \<and> v \<noteq> mean_of historical)"
    using a by (simp add: detectAnomaly_def ML_FEATURES_def)
qed (simp_all add: stdDev_of_replicate mean_of_replicate)

lemma six_tens: "replicate 6 (Num 10) = [Num 10, Num 10, Num 10, Num 10, Num 10, Num 10]"
  by (simp add: numeral_eq_Suc)

lemma double_ten: "is_double (Num 10)"
  using fl_of_int [of 10] by (simp add: is_double_def)

lemma double_hundred: "is_double (Num 100)"
  using fl_of_int [of 100] by (simp add: is_double_def)

theorem detectAnomaly_zero_stdDev_witness:
  "stdDev_of (map Num [10, 10, 10, 10, 10, 10]) = Num 0 \<and> is_double (Num 10)
   \<and> mean_of (map Num [10, 10, 10, 10, 10, 10]) = Num 10
   \<and> \<not> detectAnomaly ML_FEATURES (Num 10) (map Num [10, 10, 10, 10, 10, 10])"
  using detectAnomaly_zero_stdDev [of "replicate 6 (Num (of_int 10))" "Num 10" 6 10] double_ten
  by (simp add: six_tens)

text \<open>
  The claim as stated fails: the value 100 against the history \<open>[10,10,10,10,10,10]\<close>,
  whose standard deviation is zero, is reported anomalous.
\<close>

theorem detectAnomaly_zero_stdDev_counterexample:
  "stdDev_of (map Num [10, 10, 10, 10, 10, 10]) = Num 0
   \<and> detectAnomaly ML_FEATURES (Num 100) (map Num [10, 10, 10, 10, 10, 10])"
proof -
  have s: "stdDev_of (replicate 6 (Num 10)) = Num 0"
    using stdDev_of_replicate [of 6 10] by simp
  have m: "mean_of (replicate 6 (Num 10)) = Num 10"
    using mean_of_replicate [of 6 10] by simp
  have "fl (100 + - 10) = Num 90" using fl_of_int [of 90] by simp
  then show ?thesis
    using s m by (simp add: six_tens detectAnomaly_def ML_FEATURES_def jsub_def jgt_def)
qed

section \<open>Forecast\<close>

lemma forecast_loop_fold:
  "i \<le> length historical \<Longrightarrow> forecast_loop historical i s = foldl blend s (drop i historical)"
proof (induction "length historical - i" arbitrary: i s)
  case 0
  then show ?case by (subst forecast_loop.simps) simp
next
  case (Suc k)
  then have lt: "i < length historical" by simp
  then have d: "drop i historical = historical ! i # drop (Suc i) historical"
    by (simp add: Cons_nth_drop_Suc)
  have "k = length historical - Suc i" using Suc.hyps(2) by simp
  then have IH: "forecast_loop historical (Suc i) t = foldl blend t (drop (Suc i) historical)" for t
    using Suc.hyps(1) [of "Suc i" t] lt by simp
  show ?case
    using lt by (subst forecast_loop.simps) (simp add: d IH blend_def)
qed

lemma alpha_value: "alpha = Num (5404319552844595 / 18014398509481984)"
  unfolding alpha_def using fl_at_exponent [of "- 2" "3 / 10"]
  by (simp add: round_half_even_def Let_def)

lemma one_minus_alpha: "jsub (Num 1) alpha = Num (3152519739159347 / 4503599627370496)"
  unfolding alpha_value jsub_def
  using fl_at_exponent [of "- 1" "1 + - (5404319552844595 / 18014398509481984)"]
  by (simp add: round_half_even_def Let_def)

lemma blend_five: "blend (Num 5) (Num 5) = Num 5"
proof -
  have a: "jmul alpha (Num 5) = Num (3 / 2)"
    unfolding alpha_value
    using fl_at_exponent [of 0 "5404319552844595 / 18014398509481984 * 5"]
    by (simp add: round_half_even_def Let_def)
  have b: "jmul (jsub (Num 1) alpha) (Num 5) = Num (7 / 2)"
    unfolding one_minus_alpha
    using fl_at_exponent [of 1 "3152519739159347 / 4503599627370496 * 5"]
    by (simp add: round_half_even_def Let_def)
  have c: "jadd (Num (3 / 2)) (Num (7 / 2)) = Num 5"
    using fl_at_exponent [of 2 "3 / 2 + 7 / 2"]
    by (simp add: round_half_even_def Let_def)
  show ?thesis by (simp only: blend_def a b c)
qed

lemma blend_one_two: "blend (Num 1) (Num 2) = Num (1463669878895411 / 1125899906842624)"
proof -
  have a: "jmul alpha (Num 2) = Num (5404319552844595 / 9007199254740992)"
    unfolding alpha_value
    using fl_at_exponent [of "- 1" "5404319552844595 / 18014398509481984 * 2"]
    by (simp add: round_half_even_def Let_def)
  have b: "jmul (jsub (Num 1) alpha) (Num 1) = Num (3152519739159347 / 4503599627370496)"
    unfolding one_minus_alpha
    using fl_at_exponent [of "- 1" "3152519739159347 / 4503599627370496 * 1"]
    by (simp add: round_half_even_def Let_def)
  have c: "jadd (Num (5404319552844595 / 9007199254740992)) (Num (3152519739159347 / 4503599627370496)) = Num (1463669878895411 / 1125899906842624)"
    using fl_at_exponent [of 0 "5404319552844595 / 9007199254740992 + 3152519739159347 / 4503599627370496"]
    by (simp add: round_half_even_def Let_def)
  show ?thesis by (simp only: blend_def a b c)
qed

lemma blend_then_three: "blend (Num (1463669878895411 / 1125899906842624)) (Num 3) = Num (2037878831385149 / 1125899906842624)"
proof -
  have a: "jmul alpha (Num 3) = Num (2026619832316723 / 2251799813685248)"
    unfolding alpha_value
    using fl_at_exponent [of "- 1" "5404319552844595 / 18014398509481984 * 3"]
    by (simp add: round_half_even_def Let_def)
  have b: "jmul (jsub (Num 1) alpha) (Num (1463669878895411 / 1125899906842624)) = Num (8196551321814301 / 9007199254740992)"
    unfolding one_minus_alpha
    using fl_at_exponent [of "- 1" "3152519739159347 / 4503599627370496 * (1463669878895411 / 1125899906842624)"]
    by (simp add: round_half_even_def Let_def)
  have c: "jadd (Num (2026619832316723 / 2251799813685248)) (Num (8196551321814301 / 9007199254740992)) = Num (2037878831385149 / 1125899906842624)"
    using fl_at_exponent [of 0 "2026619832316723 / 2251799813685248 + 8196551321814301 / 9007199254740992"]
    by (simp add: round_half_even_def Let_def)
  show ?thesis by (simp only: blend_def a b c)
qed

lemma blend_ten_twenty: "blend (Num 10) (Num 20) = Num 13"
proof -
  have a: "jmul alpha (Num 20) = Num 6"
    unfolding alpha_value
    using fl_at_exponent [of 2 "5404319552844595 / 18014398509481984 * 20"]
    by (simp add: round_half_even_def Let_def)
  have b: "jmul (jsub (Num 1) alpha) (Num 10) = Num 7"
    unfolding one_minus_alpha
    using fl_at_exponent [of 2 "3152519739159347 / 4503599627370496 * 10"]
    by (simp add: round_half_even_def Let_def)
  have c: "jadd (Num 6) (Num 7) = Num 13"
    using fl_at_exponent [of 3 "6 + 7"]
    by (simp add: round_half_even_def Let_def)
  show ?thesis by (simp only: blend_def a b c)
qed


lemma blend_not_NaN:
  assumes "s \<noteq> NaN" "fl n = Num n"
  shows "blend s (Num n) \<noteq> NaN"
proof -
  have "\<bar>n\<bar> < 2 ^ 1024" using assms(2) by (rule fl_Num_bound)
  then have "\<bar>5404319552844595 / 18014398509481984 * n\<bar> < 2 ^ 1023"
    by (simp add: abs_mult)
  then obtain q where q: "fl (5404319552844595 / 18014398509481984 * n) = Num q"
    using fl_finite by blast
  have a: "jmul alpha (Num n) = Num q" using q by (simp add: alpha_value)
  show ?thesis
  proof (cases s)
    case (Num sv)
    show ?thesis
      by (cases "fl (3152519739159347 / 4503599627370496 * sv)")
        (simp_all add: blend_def a one_minus_alpha Num)
  qed (use assms(1) in \<open>simp_all add: blend_def a one_minus_alpha signed_inf_def\<close>)
qed

lemma foldl_blend_not_NaN:
  "s \<noteq> NaN \<Longrightarrow> \<forall>v\<in>set xs. isFinite v \<and> is_double v \<Longrightarrow> foldl blend s xs \<noteq> NaN"
proof (induction xs arbitrary: s)
  case Nil
  then show ?case by simp
next
  case (Cons v xs)
  then obtain n where n: "v = Num n" "fl n = Num n"
    by (cases v) (auto simp: isFinite_def is_double_def)
  have "blend s v \<noteq> NaN" unfolding n(1) using Cons.prems(1) n(2) by (rule blend_not_NaN)
  then show ?case using Cons by simp
qed

lemma Math_max_zero: "Math_max (Num 0) y = NaN \<or> jge (Math_max (Num 0) y) (Num 0)"
  by (cases y) (auto simp: Math_max_def jge_def)

text \<open>
  Claim C6. On a history \<open>x, xs\<close>, taken in the order of the array,
  \<^verbatim>\<open>forecastTimeSeries\<close> seeds with the first value \<open>x\<close>, blends
  \<open>alpha * next + (1 - alpha) * smoothed\<close> over the remaining values in order, in the
  arithmetic of doubles, and clamps the result with \<^verbatim>\<open>Math.max(0, _)\<close>: it is at least 0
  unless it is \<open>NaN\<close>, and it is not \<open>NaN\<close> when every value is a finite double. The factor \<open>alpha\<close> is the double nearest to 0.3. The constant
  history \<open>[5,5,5,5,5,5]\<close> gives exactly 5, and \<open>[1,2,3]\<close> gives the double
  \<open>1.8099999999999996\<close>.
\<close>

theorem forecastTimeSeries_smoothing:
  "forecastTimeSeries ML_FEATURES (x # xs) = Some (Math_max (Num 0) (foldl blend x xs))
   \<and> (Math_max (Num 0) (foldl blend x xs) = NaN \<or> jge (Math_max (Num 0) (foldl blend x xs)) (Num 0))
   \<and> ((\<forall>v\<in>set (x # xs). isFinite v \<and> is_double v) \<longrightarrow>
        jge (Math_max (Num 0) (foldl blend x xs)) (Num 0))
   \<and> alpha = Num (5404319552844595 / 18014398509481984)
   \<and> forecastTimeSeries ML_FEATURES (map Num [5, 5, 5, 5, 5, 5]) = Some (Num 5)
   \<and> forecastTimeSeries ML_FEATURES (map Num [1, 2, 3])
        = Some (Num (2037878831385149 / 1125899906842624))"
proof -
  have g: "forecastTimeSeries ML_FEATURES (y # ys) = Some (Math_max (Num 0) (foldl blend y ys))"
    for y ys
    using forecast_loop_fold [of 1 "y # ys" y]
    by (simp add: forecastTimeSeries_def ML_FEATURES_def at_num_def)
  have "foldl blend (Num 5) [Num 5, Num 5, Num 5, Num 5, Num 5] = Num 5" by (simp add: blend_five)
  with g [of "Num 5" "[Num 5, Num 5, Num 5, Num 5, Num 5]"]
  have five: "forecastTimeSeries ML_FEATURES (map Num [5, 5, 5, 5, 5, 5]) = Some (Num 5)"
    by (simp add: Math_max_def)
  have "foldl blend (Num 1) [Num 2, Num 3] = Num (2037878831385149 / 1125899906842624)"
    by (simp add: blend_one_two blend_then_three)
  with g [of "Num 1" "[Num 2, Num 3]"]
  have three: "forecastTimeSeries ML_FEATURES (map Num [1, 2, 3])
        = Some (Num (2037878831385149 / 1125899906842624))"
    by (simp add: Math_max_def)
  have finite: "jge (Math_max (Num 0) (foldl blend x xs)) (Num 0)"
    if "\<forall>v\<in>set (x # xs). isFinite v \<and> is_double v"
  proof -
    have "x \<noteq> NaN" using that by (auto simp: isFinite_def)
    then have "foldl blend x xs \<noteq> NaN" using that by (intro foldl_blend_not_NaN) simp_all
    then show ?thesis using Math_max_zero [of "foldl blend x xs"] by (auto simp: Math_max_def)
  qed
  show ?thesis using g [of x xs] Math_max_zero alpha_value five three finite by blast
qed

theorem forecastTimeSeries_smoothing_witness:
  "isFinite (Num 10) \<and> is_double (Num 10) \<and> isFinite (Num 20) \<and> is_double (Num 20)
   \<and> forecastTimeSeries ML_FEATURES (map Num [10, 20]) = Some (Num 13)
   \<and> jge (Num 13) (Num 0)"
  using forecastTimeSeries_smoothing [of "Num 10" "[Num 20]"] fl_of_int [of 10] fl_of_int [of 20]
  by (simp add: blend_ten_twenty Math_max_def isFinite_def is_double_def)

section \<open>Estimator flags\<close>

text \<open>
  Claim C9. When the master flag or the flag of an estimator is off, the estimator
  returns its value for no result whatever the input: \<^verbatim>\<open>null\<close> for trend prediction,
  classification and forecast, \<^verbatim>\<open>false\<close> for anomaly detection, the empty object for
  clustering.
\<close>

theorem estimators_gated:
  "(\<not> enabled cfg \<or> \<not> linearRegression cfg \<longrightarrow> predictEmploymentMissing cfg historical = None)
   \<and> (\<not> enabled cfg \<or> \<not> classification cfg \<longrightarrow> classifyPaymentSpeed cfg v historical = None)
   \<and> (\<not> enabled cfg \<or> \<not> timeSeriesForecasting cfg \<longrightarrow> forecastTimeSeries cfg historical = None)
   \<and> (\<not> enabled cfg \<or> \<not> anomalyDetection cfg \<longrightarrow> detectAnomaly cfg v historical = False)
   \<and> (\<not> enabled cfg \<or> \<not> clustering cfg \<longrightarrow> clusterDistricts cfg districtsData = Map.empty)"
  by (simp add: predictEmploymentMissing_def classifyPaymentSpeed_def forecastTimeSeries_def
      detectAnomaly_def clusterDistricts_def)

theorem estimators_gated_witness:
  "\<not> enabled (ML_FEATURES\<lparr> enabled := False \<rparr>)
   \<and> predictEmploymentMissing (ML_FEATURES\<lparr> enabled := False \<rparr>) (map Num [10, 20, 30]) = None
   \<and> classifyPaymentSpeed (ML_FEATURES\<lparr> enabled := False \<rparr>) (Num 120000) (map Num [10, 20, 30]) = None
   \<and> forecastTimeSeries (ML_FEATURES\<lparr> enabled := False \<rparr>) (map Num [10, 20, 30]) = None
   \<and> detectAnomaly (ML_FEATURES\<lparr> enabled := False \<rparr>) (Num 120000) (map Num [10, 20, 30]) = False
   \<and> clusterDistricts (ML_FEATURES\<lparr> enabled := False \<rparr>)
        [\<lparr> point_id = ''d1'', employment = Num 150000, paymentSpeed = Num 80 \<rparr>] = Map.empty"
  using estimators_gated [of "ML_FEATURES\<lparr> enabled := False \<rparr>" "map Num [10, 20, 30]" "Num 120000"
      "[\<lparr> point_id = ''d1'', employment = Num 150000, paymentSpeed = Num 80 \<rparr>]"]
  by simp


section \<open>Trend prediction\<close>
































section \<open>Objects\<close>

lemma obj_get_obj_set:
  "obj_get (obj_set obj k v) k' = (if k' = k then Some v else obj_get obj k')"
  by (induction obj) (auto simp: obj_get_def)

lemma keys_obj_set:
  "map fst (obj_set obj k v) = (if k \<in> fst ` set obj then map fst obj else map fst obj @ [k])"
  by (induction obj) (force simp: image_iff)+

lemma distinct_obj_set:
  "distinct (map fst obj) \<Longrightarrow> distinct (map fst (obj_set obj k v))"
  by (simp add: keys_obj_set)

lemma obj_set_same: "obj_get obj k = Some v \<Longrightarrow> obj_set obj k v = obj"
  by (induction obj) (auto simp: obj_get_def split: if_splits)

lemma set_obj_set: "set (obj_set obj k v) \<subseteq> insert (k, v) (set obj)"
  by (induction obj) (auto split: if_splits)

lemma set_obj_entries: "set (obj_entries obj) = set obj"
  by (auto simp: obj_entries_def)

lemma distinct_obj_entries:
  assumes "distinct (map fst obj)"
  shows "distinct (map fst (obj_entries obj))"
proof -
  have d: "distinct obj" using assms by (rule distinct_map [THEN iffD1, THEN conjunct1])
  have inj: "inj_on fst (set obj)" using assms by (simp add: distinct_map)
  have "distinct (obj_entries obj)"
    using d by (auto simp: obj_entries_def)
  moreover have "inj_on fst (set (obj_entries obj))" using inj by (simp add: set_obj_entries)
  ultimately show ?thesis by (simp add: distinct_map)
qed

lemma map_of_obj_entries:
  "distinct (map fst obj) \<Longrightarrow> map_of (obj_entries obj) = map_of obj"
  by (rule map_of_inject_set [THEN iffD2]) (simp_all add: distinct_obj_entries set_obj_entries)


section \<open>Ingest\<close>

lemma valid_districtId:
  "validateDistrictData row \<Longrightarrow> \<exists>k. row_get row MAPPINGS_districtId = JStr k"
  by (cases "row_get row MAPPINGS_districtId")
     (simp_all add: validateDistrictData_def isValidString_def)

lemma ingest_row_step:
  assumes "ingest_row H acc row = Inr acc1"
  shows "rowCount acc1 = rowCount acc + 1"
    and "validRowCount acc1 = validRowCount acc + (if validateDistrictData row then 1 else 0)"
    and "invalidRowCount acc1 = invalidRowCount acc + (if validateDistrictData row then 0 else 1)"
    and "skippedCount acc1 = skippedCount acc + (if validateDistrictData row then 0 else 1)"
    and "obj_get (dataMap acc1) k =
           (if validateDistrictData row \<and> row_get row MAPPINGS_districtId = JStr k
            then Some ((case obj_get (dataMap acc) k of None \<Rightarrow> [] | Some rs \<Rightarrow> rs) @ [row])
            else obj_get (dataMap acc) k)"
    and "distinct (map fst (dataMap acc)) \<Longrightarrow> distinct (map fst (dataMap acc1))"
proof -
  show "rowCount acc1 = rowCount acc + 1"
    using assms by (auto simp: ingest_row_def Let_def split: if_splits option.splits)
  show "validRowCount acc1 = validRowCount acc + (if validateDistrictData row then 1 else 0)"
    using assms by (auto simp: ingest_row_def Let_def split: if_splits option.splits)
  show "invalidRowCount acc1 = invalidRowCount acc + (if validateDistrictData row then 0 else 1)"
    using assms by (auto simp: ingest_row_def Let_def split: if_splits option.splits)
  show "skippedCount acc1 = skippedCount acc + (if validateDistrictData row then 0 else 1)"
    using assms by (auto simp: ingest_row_def Let_def split: if_splits option.splits)
  show "distinct (map fst (dataMap acc)) \<Longrightarrow> distinct (map fst (dataMap acc1))"
    using assms
    by (auto simp: ingest_row_def Let_def distinct_obj_set split: if_splits option.splits)
  show "obj_get (dataMap acc1) k =
           (if validateDistrictData row \<and> row_get row MAPPINGS_districtId = JStr k
            then Some ((case obj_get (dataMap acc) k of None \<Rightarrow> [] | Some rs \<Rightarrow> rs) @ [row])
            else obj_get (dataMap acc) k)"
  proof (cases "validateDistrictData row")
    case False
    then show ?thesis using assms by (auto simp: ingest_row_def Let_def)
  next
    case True
    then obtain k' where k': "row_get row MAPPINGS_districtId = JStr k'"
      using valid_districtId by blast
    show ?thesis
      using assms True
      by (auto simp: ingest_row_def Let_def k' ToString_def obj_get_obj_set
          split: if_splits option.splits)
  qed
qed

lemma ingest_row_succeeds:
  assumes "validateDistrictData row \<longrightarrow> row_get row MAPPINGS_districtId \<notin> JStr ` set object_prototype_keys"
  shows "\<exists>acc1. ingest_row H acc row = Inr acc1"
proof (cases "validateDistrictData row")
  case False
  then show ?thesis by (simp add: ingest_row_def Let_def)
next
  case True
  then obtain k' where k': "row_get row MAPPINGS_districtId = JStr k'"
    using valid_districtId by blast
  with assms True have "k' \<notin> set object_prototype_keys" by auto
  then show ?thesis
    using True by (simp add: ingest_row_def Let_def k' ToString_def split: option.splits)
qed

lemma ingest_rows_succeeds:
  assumes "\<forall>row\<in>set data. validateDistrictData row \<longrightarrow>
             row_get row MAPPINGS_districtId \<notin> JStr ` set object_prototype_keys"
  shows "\<exists>acc'. ingest_rows H acc data = Inr acc'"
  using assms
proof (induction data arbitrary: acc)
  case Nil
  then show ?case by simp
next
  case (Cons row data)
  then obtain acc1 where "ingest_row H acc row = Inr acc1"
    using ingest_row_succeeds [of row H acc] by auto
  then show ?case using Cons by simp
qed

lemma district_rows_Cons:
  "district_rows (row # data) k =
     (if validateDistrictData row \<and> row_get row MAPPINGS_districtId = JStr k
      then row # district_rows data k else district_rows data k)"
  by (simp add: district_rows_def)

lemma ingest_rows_result:
  assumes "ingest_rows H acc data = Inr acc'"
  shows "rowCount acc' = rowCount acc + length data
       \<and> validRowCount acc' = validRowCount acc + length (filter validateDistrictData data)
       \<and> invalidRowCount acc' = invalidRowCount acc + length (filter (\<lambda>r. \<not> validateDistrictData r) data)
       \<and> skippedCount acc' = skippedCount acc + length (filter (\<lambda>r. \<not> validateDistrictData r) data)
       \<and> (\<forall>k. obj_get (dataMap acc') k =
             (if district_rows data k = [] then obj_get (dataMap acc) k
              else Some ((case obj_get (dataMap acc) k of None \<Rightarrow> [] | Some rs \<Rightarrow> rs)
                         @ district_rows data k)))
       \<and> (distinct (map fst (dataMap acc)) \<longrightarrow> distinct (map fst (dataMap acc')))"
  using assms
proof (induction data arbitrary: acc)
  case Nil
  then show ?case by (simp add: district_rows_def)
next
  case (Cons row data)
  from Cons.prems obtain acc1 where
    s1: "ingest_row H acc row = Inr acc1" and s2: "ingest_rows H acc1 data = Inr acc'"
    by (auto split: sum.splits)
  note IH = Cons.IH [OF s2]
  note st = ingest_row_step [OF s1]
  show ?case
  proof (intro conjI allI impI)
    show "rowCount acc' = rowCount acc + length (row # data)"
      using IH st(1) by simp
    show "validRowCount acc' = validRowCount acc + length (filter validateDistrictData (row # data))"
      using IH st(2) by simp
    show "invalidRowCount acc' = invalidRowCount acc + length (filter (\<lambda>r. \<not> validateDistrictData r) (row # data))"
      using IH st(3) by simp
    show "skippedCount acc' = skippedCount acc + length (filter (\<lambda>r. \<not> validateDistrictData r) (row # data))"
      using IH st(4) by simp
    show "distinct (map fst (dataMap acc'))" if "distinct (map fst (dataMap acc))"
      using IH st(6) that by simp
    fix k
    have "obj_get (dataMap acc') k =
             (if district_rows data k = [] then obj_get (dataMap acc1) k
              else Some ((case obj_get (dataMap acc1) k of None \<Rightarrow> [] | Some rs \<Rightarrow> rs)
                         @ district_rows data k))"
      using IH by blast
    then show "obj_get (dataMap acc') k =
             (if district_rows (row # data) k = [] then obj_get (dataMap acc) k
              else Some ((case obj_get (dataMap acc) k of None \<Rightarrow> [] | Some rs \<Rightarrow> rs)
                         @ district_rows (row # data) k))"
      by (simp add: st(5) [of k] district_rows_Cons split: option.splits)
  qed
qed


section \<open>Sorting and entries\<close>

lemma insert_sorted_mset:
  "insert_sorted cmp x ys = Inr zs \<Longrightarrow> mset zs = add_mset x (mset ys)"
  by (induction ys arbitrary: zs) (auto split: sum.splits if_splits)

lemma sort_from_mset:
  "sort_from cmp acc xs = Inr zs \<Longrightarrow> mset zs = mset acc + mset xs"
proof (induction xs arbitrary: acc)
  case Nil
  then show ?case by simp
next
  case (Cons x xs)
  then obtain acc1 where a: "insert_sorted cmp x acc = Inr acc1" and b: "sort_from cmp acc1 xs = Inr zs"
    by (auto split: sum.splits)
  show ?case using Cons.IH [OF b] insert_sorted_mset [OF a] by simp
qed

lemma array_sort_mset: "array_sort cmp xs = Inr zs \<Longrightarrow> mset zs = mset xs"
  by (simp add: array_sort_def sort_from_mset)

lemma insert_sorted_stable:
  fixes key :: "'a \<Rightarrow> 'k::linorder"
  assumes "\<forall>y\<in>set ys. \<exists>c. cmp x y = Inr c \<and> (c < 0 \<longleftrightarrow> key x < key y)"
    and "sorted (map key ys)"
  shows "\<exists>zs. insert_sorted cmp x ys = Inr zs \<and> sorted (map key zs) \<and> set zs = insert x (set ys)
           \<and> (\<forall>k. filter (\<lambda>y. k = key y) zs
                  = filter (\<lambda>y. k = key y) ys @ (if k = key x then [x] else []))"
  using assms
proof (induction ys)
  case Nil
  then show ?case by simp
next
  case (Cons y ys)
  from Cons.prems(1) obtain c where c: "cmp x y = Inr c" "c < 0 \<longleftrightarrow> key x < key y" by auto
  show ?case
  proof (cases "c < 0")
    case True
    then have lt: "key x < key y" using c(2) by simp
    have "\<forall>z\<in>set (y # ys). key x < key z" using lt Cons.prems(2) by auto
    then have "filter (\<lambda>z. key x = key z) (y # ys) = []" by (auto simp: filter_empty_conv)
    then show ?thesis using True c(1) lt Cons.prems(2) by (auto simp: less_imp_le)
  next
    case False
    then have ge: "key y \<le> key x" using c(2) by simp
    from Cons.prems obtain zs where zs: "insert_sorted cmp x ys = Inr zs" "sorted (map key zs)"
      "set zs = insert x (set ys)"
      "\<forall>k. filter (\<lambda>y. k = key y) zs = filter (\<lambda>y. k = key y) ys @ (if k = key x then [x] else [])"
      using Cons.IH by auto
    have "sorted (map key (y # zs))" using zs(2,3) ge Cons.prems(2) by auto
    then show ?thesis using False c(1) zs by auto
  qed
qed

lemma sort_from_stable:
  fixes key :: "'a \<Rightarrow> 'k::linorder"
  assumes "\<forall>x\<in>set acc \<union> set xs. \<forall>y\<in>set acc \<union> set xs. \<exists>c. cmp x y = Inr c \<and> (c < 0 \<longleftrightarrow> key x < key y)"
    and "sorted (map key acc)"
  shows "\<exists>zs. sort_from cmp acc xs = Inr zs \<and> sorted (map key zs)
           \<and> (\<forall>k. filter (\<lambda>y. k = key y) zs = filter (\<lambda>y. k = key y) (acc @ xs))"
  using assms
proof (induction xs arbitrary: acc)
  case Nil
  then show ?case by simp
next
  case (Cons x xs)
  have "\<forall>y\<in>set acc. \<exists>c. cmp x y = Inr c \<and> (c < 0 \<longleftrightarrow> key x < key y)"
    using Cons.prems(1) by simp
  from insert_sorted_stable [of acc cmp x key, OF this Cons.prems(2)] obtain acc' where a:
    "insert_sorted cmp x acc = Inr acc'" "sorted (map key acc')" "set acc' = insert x (set acc)"
    "\<forall>k. filter (\<lambda>y. k = key y) acc' = filter (\<lambda>y. k = key y) acc @ (if k = key x then [x] else [])"
    by blast
  have "\<forall>x\<in>set acc' \<union> set xs. \<forall>y\<in>set acc' \<union> set xs. \<exists>c. cmp x y = Inr c \<and> (c < 0 \<longleftrightarrow> key x < key y)"
    using Cons.prems(1) a(3) by simp
  from Cons.IH [of acc', OF this a(2)] obtain zs where zs: "sort_from cmp acc' xs = Inr zs"
    "sorted (map key zs)" "\<forall>k. filter (\<lambda>y. k = key y) zs = filter (\<lambda>y. k = key y) (acc' @ xs)"
    by blast
  show ?case using a(1,4) zs by simp
qed

lemma array_sort_stable:
  fixes key :: "'a \<Rightarrow> 'k::linorder"
  assumes "\<forall>x\<in>set xs. \<forall>y\<in>set xs. \<exists>c. cmp x y = Inr c \<and> (c < 0 \<longleftrightarrow> key x < key y)"
  shows "array_sort cmp xs = Inr (sort_key key xs)"
proof -
  from sort_from_stable [of "[]" xs cmp key] assms obtain zs where zs:
    "sort_from cmp [] xs = Inr zs" "sorted (map key zs)"
    "\<forall>k. filter (\<lambda>y. k = key y) zs = filter (\<lambda>y. k = key y) xs" by auto
  have m: "mset zs = mset xs" using zs(1) array_sort_mset [of cmp xs zs] by (simp add: array_sort_def)
  have "sort_key key xs = zs"
    using m _ zs(2) by (rule properties_for_sort_key) (simp add: zs(3))
  then show ?thesis using zs(1) by (simp add: array_sort_def)
qed

lemma insert_sorted_succeeds:
  "\<forall>y\<in>set ys. \<exists>c. cmp x y = Inr c \<Longrightarrow> \<exists>zs. insert_sorted cmp x ys = Inr zs"
  by (induction ys) (auto split: sum.splits)

lemma sort_from_succeeds:
  assumes "\<forall>y\<in>set acc \<union> set xs. \<forall>x. \<exists>c. cmp x y = Inr c"
  shows "\<exists>zs. sort_from cmp acc xs = Inr zs"
  using assms
proof (induction xs arbitrary: acc)
  case Nil
  then show ?case by simp
next
  case (Cons x xs)
  then obtain acc1 where a: "insert_sorted cmp x acc = Inr acc1"
    using insert_sorted_succeeds [of acc cmp x] by auto
  then have "set acc1 = insert x (set acc)"
    using insert_sorted_mset [OF a] by (metis set_mset_add_mset_insert set_mset_mset)
  then have "\<forall>y\<in>set acc1 \<union> set xs. \<forall>x. \<exists>c. cmp x y = Inr c"
    using Cons.prems by auto
  from Cons.IH [OF this] show ?case using a by simp
qed

lemma compare_month_succeeds:
  "row_get b ''month'' = JStr m \<Longrightarrow> \<exists>c. compare_month H a b = Inr c"
  by (simp add: compare_month_def)

lemma array_sort_months:
  assumes "\<forall>r\<in>set rows. \<exists>m. row_get r ''month'' = JStr m"
  shows "\<exists>zs. array_sort (compare_month H) rows = Inr zs"
  unfolding array_sort_def
  by (rule sort_from_succeeds) (use assms compare_month_succeeds in auto)

lemma parseNumericSafe_not_NaN: "parseNumericSafe H v (Num 0) \<noteq> NaN"
  by (simp add: parseNumericSafe_def isValidNumeric_def)

lemma pad_history_eq:
  "h \<noteq> [] \<Longrightarrow> hd h \<noteq> NaN \<Longrightarrow> pad_history h = h @ replicate (6 - length h) (hd h)"
proof (induction "6 - length h" arbitrary: h)
  case 0
  then show ?case by (subst pad_history.simps) simp
next
  case (Suc n)
  then have lt: "length h < 6" by simp
  have oz: "or_zero (at_num h 0) = hd h"
    using Suc.prems by (cases h) (auto simp: or_zero_def at_num_def)
  have "pad_history (h @ [hd h]) = (h @ [hd h]) @ replicate (6 - length (h @ [hd h])) (hd (h @ [hd h]))"
    using Suc by (intro Suc.hyps(1)) auto
  also have "\<dots> = h @ replicate (6 - length h) (hd h)"
    using lt Suc.prems(1) by (simp add: replicate_app_Cons_same Suc_diff_Suc flip: replicate_Suc)
  finally show ?case
    using lt by (subst pad_history.simps) (simp add: oz)
qed

lemma build_entry_shape:
  assumes "build_entry H g = Inr e"
  shows "\<exists>periods. array_sort (compare_month H) g = Inr periods \<and> periods \<noteq> []
           \<and> mset periods = mset g
           \<and> e = \<lparr> raw = hd periods,
                   historicalEmployed = map (metric H) (take 6 periods)
                     @ replicate (6 - length g) (metric H (hd periods)) \<rparr>"
proof -
  from assms obtain periods where s: "array_sort (compare_month H) g = Inr periods"
    by (auto simp: build_entry_def split: sum.splits)
  with assms obtain latest rest where p: "periods = latest # rest"
    by (cases periods) (auto simp: build_entry_def)
  let ?h = "map (metric H) (take 6 periods)"
  have ne: "?h \<noteq> []" and hd: "hd ?h = metric H latest" by (simp_all add: p)
  have nan: "hd ?h \<noteq> NaN" unfolding hd metric_def by (rule parseNumericSafe_not_NaN)
  have m: "(\<lambda>r. parseNumericSafe H (row_get r MAPPINGS_peopleEmployed) (Num 0)) = metric H"
    by (auto simp: metric_def)
  have len: "length g = length periods" using array_sort_mset [OF s] by (metis size_mset)
  have pad: "pad_history ?h = ?h @ replicate (6 - length g) (metric H latest)"
    using pad_history_eq [OF ne nan] by (simp add: hd min_def p len)
  have "e = \<lparr> raw = latest, historicalEmployed = pad_history ?h \<rparr>"
    using assms s unfolding build_entry_def m by (simp add: p)
  with pad show ?thesis
    using array_sort_mset [OF s] s p by (intro exI [of _ periods]) simp
qed

lemma build_entry_succeeds:
  assumes "g \<noteq> []" "\<forall>r\<in>set g. \<exists>m. row_get r ''month'' = JStr m"
  shows "\<exists>e. build_entry H g = Inr e"
proof -
  obtain zs where s: "array_sort (compare_month H) g = Inr zs"
    using array_sort_months [OF assms(2)] by blast
  then have "zs \<noteq> []" using array_sort_mset [OF s] assms(1) by auto
  then show ?thesis using s by (cases zs) (simp_all add: build_entry_def)
qed


section \<open>Installing\<close>

lemma install_all_other:
  "k \<notin> fst ` set kgs \<Longrightarrow> obj_get (install_all H kgs store) k = obj_get store k"
proof (induction kgs arbitrary: store)
  case Nil
  then show ?case by simp
next
  case (Cons kg kgs)
  obtain k' g where kg: "kg = (k', g)" by (cases kg)
  show ?case using Cons by (auto simp: kg obj_get_obj_set split: sum.splits)
qed

lemma install_all_idem:
  "distinct (map fst kgs) \<Longrightarrow>
     install_all H kgs (install_all H kgs store) = install_all H kgs store"
proof (induction kgs arbitrary: store)
  case Nil
  then show ?case by simp
next
  case (Cons kg kgs)
  obtain k g where kg: "kg = (k, g)" by (cases kg)
  show ?case
  proof (cases "build_entry H g")
    case (Inl err)
    then show ?thesis by (simp add: kg)
  next
    case (Inr en)
    let ?s = "install_all H kgs (obj_set store k en)"
    have "k \<notin> fst ` set kgs" using Cons.prems by (simp add: kg)
    then have "obj_get ?s k = Some en" by (simp add: install_all_other obj_get_obj_set)
    then have "obj_set ?s k en = ?s" by (rule obj_set_same)
    moreover have "install_all H kgs ?s = ?s" using Cons by simp
    ultimately show ?thesis by (simp add: kg Inr)
  qed
qed

lemma install_all_lookup:
  assumes "distinct (map fst kgs)" "\<forall>(k, g)\<in>set kgs. \<exists>en. build_entry H g = Inr en"
  shows "obj_get (install_all H kgs store) k =
           (case map_of kgs k of
              None \<Rightarrow> obj_get store k
            | Some g \<Rightarrow> (case build_entry H g of Inr en \<Rightarrow> Some en | Inl err \<Rightarrow> None))"
  using assms
proof (induction kgs arbitrary: store)
  case Nil
  then show ?case by simp
next
  case (Cons kg kgs)
  obtain k' g where kg: "kg = (k', g)" by (cases kg)
  from Cons.prems obtain en where en: "build_entry H g = Inr en" by (auto simp: kg)
  have IH: "obj_get (install_all H kgs (obj_set store k' en)) k =
           (case map_of kgs k of
              None \<Rightarrow> obj_get (obj_set store k' en) k
            | Some g \<Rightarrow> (case build_entry H g of Inr en \<Rightarrow> Some en | Inl err \<Rightarrow> None))"
    using Cons.prems by (intro Cons.IH) auto
  have "k' \<notin> fst ` set kgs" using Cons.prems by (simp add: kg)
  then have "map_of kgs k' = None" by (simp add: map_of_eq_None_iff)
  then show ?case
    by (simp add: kg en IH obj_get_obj_set split: option.splits)
qed

lemma install_all_preserves:
  assumes "\<forall>(k, en)\<in>set store. P k en"
    and "\<forall>(k, g)\<in>set kgs. \<forall>en. build_entry H g = Inr en \<longrightarrow> P k en"
  shows "\<forall>(k, en)\<in>set (install_all H kgs store). P k en"
  using assms
proof (induction kgs arbitrary: store)
  case Nil
  then show ?case by simp
next
  case (Cons kg kgs)
  obtain k g where kg: "kg = (k, g)" by (cases kg)
  show ?case
  proof (cases "build_entry H g")
    case (Inl err)
    then show ?thesis using Cons.prems by (simp add: kg)
  next
    case (Inr en)
    have "P k en" using Cons.prems(2) Inr by (simp add: kg)
    then have "\<forall>(k, en)\<in>set (obj_set store k en). P k en"
      using set_obj_set [of store k en] Cons.prems(1) by auto
    moreover have "\<forall>(k, g)\<in>set kgs. \<forall>en. build_entry H g = Inr en \<longrightarrow> P k en"
      using Cons.prems(2) by simp
    ultimately show ?thesis using Cons.IH by (simp add: kg Inr)
  qed
qed

lemma install_all_distinct:
  "distinct (map fst store) \<Longrightarrow> distinct (map fst (install_all H kgs store))"
proof (induction kgs arbitrary: store)
  case Nil
  then show ?case by simp
next
  case (Cons kg kgs)
  obtain k g where kg: "kg = (k, g)" by (cases kg)
  show ?case using Cons by (auto simp: kg distinct_obj_set split: sum.splits)
qed

lemma load_unfold:
  "loadDataFromCloud H (Snapshot data) s =
     (case ingest_rows H start_ingest data of
        Inl e \<Rightarrow> s
      | Inr acc \<Rightarrow>
          \<lparr> csvData = install_all H (obj_entries (dataMap acc)) (csvData s),
            dataQualityMetrics =
              \<lparr> totalRows = rowCount acc, validRows = validRowCount acc,
                invalidRows = invalidRowCount acc, skippedDistricts = skippedCount acc,
                completenessScore =
                  jmul (jdiv (Num (real (validRowCount acc))) (Num (real (rowCount acc)))) (Num 100) \<rparr> \<rparr>)"
  by (simp add: loadDataFromCloud_def)

lemma start_ingest_simps:
  "dataMap start_ingest = []" "rowCount start_ingest = 0" "validRowCount start_ingest = 0"
  by (simp_all add: start_ingest_def)

text \<open>
  Claim C8. Running an ingestion cycle twice in succession on the same response leaves
  the store and the quality metrics exactly as the first run left them, whatever the
  state before and also when the cycle is cut short by an exception.
\<close>

theorem rebuild_idempotent:
  "loadDataFromCloud H response (loadDataFromCloud H response s) = loadDataFromCloud H response s"
proof (cases response)
  case Unavailable
  then show ?thesis by (simp add: loadDataFromCloud_def)
next
  case (Snapshot data)
  show ?thesis
  proof (cases "ingest_rows H start_ingest data")
    case (Inl err)
    then show ?thesis by (simp add: Snapshot load_unfold)
  next
    case (Inr acc)
    have "distinct (map fst (dataMap acc))"
      using ingest_rows_result [OF Inr] by (simp add: start_ingest_simps)
    then have "distinct (map fst (obj_entries (dataMap acc)))" by (rule distinct_obj_entries)
    then show ?thesis by (simp add: Snapshot load_unfold Inr install_all_idem)
  qed
qed


section \<open>Completeness score\<close>

lemma fl_percent:
  assumes "0 < n" "m \<le> n" "n < 2 ^ 32"
  shows "\<exists>r. jmul (jdiv (Num (real m)) (Num (real n))) (Num 100) = Num r
           \<and> \<bar>r - 100 * real m / real n\<bar> \<le> 100 * real m / real n / 2 ^ 51"
proof (cases "m = 0")
  case True
  then show ?thesis using assms(1) by simp
next
  case False
  define x where "x = real m / real n"
  have n: "0 < real n" "real n < 2 ^ 32" using assms(1,3) by simp_all
  have m1: "1 \<le> real m" using False by simp
  have x1: "x \<le> 1" using assms(1,2) by (simp add: x_def)
  have "1 / 2 ^ 32 \<le> 1 / real n" using n by (simp add: frac_le)
  also have "1 / real n \<le> x" unfolding x_def using m1 n(1) by (simp add: divide_right_mono)
  finally have xlow: "1 / 2 ^ 32 \<le> x" .
  have xpos: "0 < x" using False assms(1) by (simp add: x_def)
  have small: "(2::real) powi (- 1022) \<le> 1 / 2 ^ 40"
    using power_int_increasing [of "- 1022" "- 40" "2::real"] powi_neg_nat [of 40] by simp
  have "(1::real) / 2 ^ 40 \<le> 1 / 2 ^ 32" by simp
  with small xlow have lo: "2 powi (- 1022) \<le> \<bar>x\<bar>" using xpos by linarith
  have "(1::real) < 2 ^ 1023" by (rule one_less_power) simp_all
  then have hi: "\<bar>x\<bar> < 2 ^ 1023" using x1 xpos by linarith
  from fl_error [OF lo hi] obtain q where q: "fl x = Num q" "\<bar>q - x\<bar> \<le> \<bar>x\<bar> / 2 ^ 53" by blast
  have qx: "\<bar>q - x\<bar> \<le> x / 2 ^ 53" using q(2) xpos by simp
  have "x / 2 ^ 53 \<le> x / 2" using xpos by (simp add: field_simps)
  with qx have qlow: "x / 2 \<le> q" by linarith
  have qhigh: "q \<le> x + x / 2 ^ 53" using qx by linarith
  have "x + x / 2 ^ 53 \<le> 2 * x" using xpos by (simp add: field_simps)
  with qhigh x1 have q2: "q \<le> 2" by linarith
  have "1 / 2 ^ 40 \<le> x / 2 * 100" using xlow by simp
  with qlow have "1 / 2 ^ 40 \<le> q * 100" by linarith
  with small have lo2: "2 powi (- 1022) \<le> \<bar>q * 100\<bar>" by linarith
  have "(2::real) ^ 8 \<le> 2 ^ 1023" by (rule power_increasing) simp_all
  then have "(200::real) < 2 ^ 1023" by simp
  with q2 qlow xpos have hi2: "\<bar>q * 100\<bar> < 2 ^ 1023" by simp
  from fl_error [OF lo2 hi2] obtain r where r: "fl (q * 100) = Num r"
    "\<bar>r - q * 100\<bar> \<le> \<bar>q * 100\<bar> / 2 ^ 53" by blast
  have qpos: "0 < q" using qlow xpos by linarith
  have "\<bar>r - q * 100\<bar> \<le> q * 100 / 2 ^ 53" using r(2) qpos by simp
  also have "\<dots> \<le> (x + x / 2 ^ 53) * 100 / 2 ^ 53"
    using qhigh by (simp add: divide_right_mono)
  finally have e1: "\<bar>r - q * 100\<bar> \<le> (x + x / 2 ^ 53) * 100 / 2 ^ 53" .
  have "q * 100 - 100 * x = 100 * (q - x)" by (simp add: algebra_simps)
  then have "\<bar>q * 100 - 100 * x\<bar> = 100 * \<bar>q - x\<bar>" by (simp only: abs_mult abs_numeral)
  then have e2: "\<bar>q * 100 - 100 * x\<bar> \<le> 100 * (x / 2 ^ 53)" using qx by linarith
  have "\<bar>r - 100 * x\<bar> \<le> \<bar>r - q * 100\<bar> + \<bar>q * 100 - 100 * x\<bar>" by linarith
  also have "\<dots> \<le> (x + x / 2 ^ 53) * 100 / 2 ^ 53 + 100 * (x / 2 ^ 53)" using e1 e2 by linarith
  also have "\<dots> \<le> 100 * x / 2 ^ 51" using xpos by (simp add: field_simps)
  finally have "\<bar>r - 100 * x\<bar> \<le> 100 * x / 2 ^ 51" .
  moreover have "jmul (jdiv (Num (real m)) (Num (real n))) (Num 100) = Num r"
    using assms(1) q(1) r(1) by (simp add: x_def)
  ultimately show ?thesis by (auto simp: x_def)
qed

lemma fl_percent_all:
  assumes "0 < n"
  shows "jmul (jdiv (Num (real n)) (Num (real n))) (Num 100) = Num 100"
  using assms fl_one fl_of_int [of 100] by simp

text \<open>
  Claim C1, as the code has it. For a snapshot of \<open>N > 0\<close> rows (an array holds fewer
  than \<open>2^32\<close>) of which \<open>M\<close> are accepted, and no accepted district identifier naming a
  property of \<^verbatim>\<open>Object.prototype\<close>, the published completeness score is the double
  \<^verbatim>\<open>(M / N) * 100\<close>, each operation rounded: a number within \<open>100 M / N / 2^51\<close> of
  \<open>100 M / N\<close>, and 100 when every row is accepted. For the empty snapshot the cycle
  completes, leaves the store as it was (so the listing is empty at the start of the
  process), and publishes the score \<open>NaN\<close>: the division \<open>0 / 0\<close> is not guarded.
\<close>

theorem completenessScore_published:
  "(data \<noteq> [] \<and> length data < 2 ^ 32 \<and> (\<forall>row\<in>set data. validateDistrictData row \<longrightarrow>
        row_get row MAPPINGS_districtId \<notin> JStr ` set object_prototype_keys) \<longrightarrow>
      completenessScore (dataQualityMetrics (loadDataFromCloud H (Snapshot data) s))
        = jmul (jdiv (Num (real (length (filter validateDistrictData data)))) (Num (real (length data))))
            (Num 100)
      \<and> (\<exists>r. completenessScore (dataQualityMetrics (loadDataFromCloud H (Snapshot data) s)) = Num r
            \<and> \<bar>r - 100 * real (length (filter validateDistrictData data)) / real (length data)\<bar>
                \<le> 100 * real (length (filter validateDistrictData data)) / real (length data) / 2 ^ 51)
      \<and> (list_all validateDistrictData data \<longrightarrow>
            completenessScore (dataQualityMetrics (loadDataFromCloud H (Snapshot data) s)) = Num 100))
   \<and> completenessScore (dataQualityMetrics (loadDataFromCloud H (Snapshot []) s)) = NaN
   \<and> csvData (loadDataFromCloud H (Snapshot []) s) = csvData s
   \<and> listDistricts (csvData (loadDataFromCloud H (Snapshot []) initial_state)) = []"
proof (intro conjI impI)
  assume a: "data \<noteq> [] \<and> length data < 2 ^ 32 \<and> (\<forall>row\<in>set data. validateDistrictData row \<longrightarrow>
        row_get row MAPPINGS_districtId \<notin> JStr ` set object_prototype_keys)"
  then obtain acc where acc: "ingest_rows H start_ingest data = Inr acc"
    using ingest_rows_succeeds [of data H start_ingest] by blast
  have "rowCount acc = length data" "validRowCount acc = length (filter validateDistrictData data)"
    using ingest_rows_result [OF acc] by (simp_all add: start_ingest_simps)
  then show score: "completenessScore (dataQualityMetrics (loadDataFromCloud H (Snapshot data) s))
        = jmul (jdiv (Num (real (length (filter validateDistrictData data)))) (Num (real (length data))))
            (Num 100)"
    by (simp add: load_unfold acc)
  have "0 < length data" using a by simp
  moreover have "length (filter validateDistrictData data) \<le> length data" by simp
  ultimately show "\<exists>r. completenessScore (dataQualityMetrics (loadDataFromCloud H (Snapshot data) s)) = Num r
            \<and> \<bar>r - 100 * real (length (filter validateDistrictData data)) / real (length data)\<bar>
                \<le> 100 * real (length (filter validateDistrictData data)) / real (length data) / 2 ^ 51"
    unfolding score using a by (intro fl_percent) simp_all
  assume "list_all validateDistrictData data"
  then have "filter validateDistrictData data = data" by (simp add: list_all_iff)
  then show "completenessScore (dataQualityMetrics (loadDataFromCloud H (Snapshot data) s)) = Num 100"
    unfolding score using fl_percent_all [of "length data"] a by simp
next
  show "completenessScore (dataQualityMetrics (loadDataFromCloud H (Snapshot []) s)) = NaN"
    by (simp add: loadDataFromCloud_def start_ingest_def)
  show "csvData (loadDataFromCloud H (Snapshot []) s) = csvData s"
    by (simp add: loadDataFromCloud_def start_ingest_def obj_entries_def)
  show "listDistricts (csvData (loadDataFromCloud H (Snapshot []) initial_state)) = []"
    by (simp add: loadDataFromCloud_def start_ingest_def obj_entries_def initial_state_def
        listDistricts_def)
qed


lemma example_row_accepted:
  "validateDistrictData (example_row ''A'' ''Agra'' ''2024-01'' (JNum (Num 500)))"
  "row_get (example_row ''A'' ''Agra'' ''2024-01'' (JNum (Num 500))) MAPPINGS_districtId
     \<notin> JStr ` set object_prototype_keys"
  "\<not> validateDistrictData [(''district_name'', JStr ''Mathura'')]"
  by (simp_all add: validateDistrictData_def row_get_def obj_get_def MAPPINGS_districtId_def
      isValidString_def trim_def is_white_space_def object_prototype_keys_def example_row_def)

lemma seven_of_twenty_five:
  "fl (7 / 25) = Num (1261007895663739 / 4503599627370496)"
  "fl (1261007895663739 / 4503599627370496 * 100) = Num (7881299347898369 / 281474976710656)"
  using fl_at_exponent [of "- 2" "7 / 25"]
    fl_at_exponent [of 4 "1261007895663739 / 4503599627370496 * 100"]
  by (simp_all add: round_half_even_def Let_def)

text \<open>
  With 7 of 25 rows accepted the published score is the double \<open>28.000000000000004\<close>.
\<close>

theorem completenessScore_published_witness:
  "completenessScore (dataQualityMetrics (loadDataFromCloud example_host
      (Snapshot (replicate 7 (example_row ''A'' ''Agra'' ''2024-01'' (JNum (Num 500)))
                 @ replicate 18 [(''district_name'', JStr ''Mathura'')]))
      initial_state)) = Num (7881299347898369 / 281474976710656)
   \<and> \<bar>7881299347898369 / 281474976710656 - 100 * 7 / 25\<bar> \<le> 100 * 7 / 25 / (2 ^ 51 :: real)"
  using completenessScore_published [of
      "replicate 7 (example_row ''A'' ''Agra'' ''2024-01'' (JNum (Num 500)))
                 @ replicate 18 [(''district_name'', JStr ''Mathura'')]"
      example_host initial_state] seven_of_twenty_five
  by (simp add: example_row_accepted)

text \<open>
  The claim as stated fails on the empty snapshot: the published score is not 0.
\<close>

theorem completenessScore_published_counterexample:
  "completenessScore (dataQualityMetrics (loadDataFromCloud example_host (Snapshot []) initial_state))
     \<noteq> Num 0"
  by (simp add: loadDataFromCloud_def start_ingest_def)

section \<open>Groups\<close>

lemma groups_of_snapshot:
  assumes "ingest_rows H start_ingest data = Inr acc"
  shows "distinct (map fst (obj_entries (dataMap acc)))"
    and "map_of (obj_entries (dataMap acc)) k
           = (if district_rows data k = [] then None else Some (district_rows data k))"
    and "(k, g) \<in> set (obj_entries (dataMap acc)) \<Longrightarrow> g = district_rows data k \<and> g \<noteq> []"
proof -
  have d: "distinct (map fst (dataMap acc))"
    using ingest_rows_result [OF assms] by (simp add: start_ingest_simps)
  then show d': "distinct (map fst (obj_entries (dataMap acc)))" by (rule distinct_obj_entries)
  have "obj_get (dataMap acc) k = (if district_rows data k = [] then None else Some (district_rows data k))" for k
    using ingest_rows_result [OF assms] by (simp add: start_ingest_simps obj_get_def)
  then show m: "map_of (obj_entries (dataMap acc)) k
           = (if district_rows data k = [] then None else Some (district_rows data k))" for k
    by (simp add: map_of_obj_entries [OF d] obj_get_def)
  show "g = district_rows data k \<and> g \<noteq> []" if "(k, g) \<in> set (obj_entries (dataMap acc))"
  proof -
    have "map_of (obj_entries (dataMap acc)) k = Some g"
      using d' that by (rule map_of_is_SomeI)
    then show ?thesis using m [of k] by (auto split: if_splits)
  qed
qed

lemma district_rows_subset:
  "r \<in> set (district_rows data k) \<Longrightarrow> r \<in> set data \<and> validateDistrictData r"
  by (simp add: district_rows_def)

lemma cycle_lookup:
  assumes "\<forall>row\<in>set data. validateDistrictData row \<longrightarrow>
             row_get row MAPPINGS_districtId \<notin> JStr ` set object_prototype_keys
             \<and> (\<exists>m. row_get row ''month'' = JStr m)"
    and "district_rows data k \<noteq> []"
  shows "\<exists>en. build_entry H (district_rows data k) = Inr en
           \<and> obj_get (csvData (loadDataFromCloud H (Snapshot data) s)) k = Some en"
proof -
  obtain acc where acc: "ingest_rows H start_ingest data = Inr acc"
    using ingest_rows_succeeds [of data H start_ingest] assms(1) by blast
  note gs = groups_of_snapshot [OF acc]
  have ok: "\<forall>(k, g)\<in>set (obj_entries (dataMap acc)). \<exists>en. build_entry H g = Inr en"
  proof (clarify)
    fix k' g assume "(k', g) \<in> set (obj_entries (dataMap acc))"
    then have g: "g = district_rows data k'" "g \<noteq> []" using gs(3) by blast+
    have "\<forall>r\<in>set g. \<exists>m. row_get r ''month'' = JStr m"
      using assms(1) district_rows_subset unfolding g(1) by blast
    with g(2) show "\<exists>en. build_entry H g = Inr en" by (rule build_entry_succeeds)
  qed
  have look: "obj_get (csvData (loadDataFromCloud H (Snapshot data) s)) k =
           (case map_of (obj_entries (dataMap acc)) k of
              None \<Rightarrow> obj_get (csvData s) k
            | Some g \<Rightarrow> (case build_entry H g of Inr en \<Rightarrow> Some en | Inl err \<Rightarrow> None))"
    using install_all_lookup [OF gs(1) ok] by (simp add: load_unfold acc)
  have "(k, district_rows data k) \<in> set (obj_entries (dataMap acc))"
    using gs(2) [of k] assms(2) by (simp add: map_of_SomeD)
  with ok obtain en where "build_entry H (district_rows data k) = Inr en" by blast
  then show ?thesis using assms(2) by (simp add: look gs(2))
qed

text \<open>
  Claim C2, as the code has it. A cycle writes into the store in place. On a snapshot
  whose accepted rows carry a string \<^verbatim>\<open>month\<close> and no identifier naming a property of
  \<^verbatim>\<open>Object.prototype\<close>, the store afterwards maps the identifier of every district
  with accepted rows to the entry built from these rows, and every other identifier to
  what the store held before. A response without rows leaves the state untouched.
\<close>

theorem rebuild_merges:
  assumes "\<forall>row\<in>set data. validateDistrictData row \<longrightarrow>
             row_get row MAPPINGS_districtId \<notin> JStr ` set object_prototype_keys
             \<and> (\<exists>m. row_get row ''month'' = JStr m)"
  shows "(district_rows data k = [] \<longrightarrow>
            obj_get (csvData (loadDataFromCloud H (Snapshot data) s)) k = obj_get (csvData s) k)
       \<and> (district_rows data k \<noteq> [] \<longrightarrow>
            (\<exists>en. build_entry H (district_rows data k) = Inr en
                \<and> obj_get (csvData (loadDataFromCloud H (Snapshot data) s)) k = Some en))
       \<and> loadDataFromCloud H Unavailable s = s"
proof -
  obtain acc where acc: "ingest_rows H start_ingest data = Inr acc"
    using ingest_rows_succeeds [of data H start_ingest] assms by blast
  note gs = groups_of_snapshot [OF acc]
  have ok: "\<forall>(k, g)\<in>set (obj_entries (dataMap acc)). \<exists>en. build_entry H g = Inr en"
  proof (clarify)
    fix k' g assume "(k', g) \<in> set (obj_entries (dataMap acc))"
    then have g: "g = district_rows data k'" "g \<noteq> []" using gs(3) by blast+
    have "\<forall>r\<in>set g. \<exists>m. row_get r ''month'' = JStr m"
      using assms district_rows_subset unfolding g(1) by blast
    with g(2) show "\<exists>en. build_entry H g = Inr en" by (rule build_entry_succeeds)
  qed
  have look: "obj_get (csvData (loadDataFromCloud H (Snapshot data) s)) k =
           (case map_of (obj_entries (dataMap acc)) k of
              None \<Rightarrow> obj_get (csvData s) k
            | Some g \<Rightarrow> (case build_entry H g of Inr en \<Rightarrow> Some en | Inl err \<Rightarrow> None))"
    using install_all_lookup [OF gs(1) ok] by (simp add: load_unfold acc)
  show ?thesis
  proof (intro conjI impI)
    assume "district_rows data k = []"
    then show "obj_get (csvData (loadDataFromCloud H (Snapshot data) s)) k = obj_get (csvData s) k"
      by (simp add: look gs(2))
  next
    assume ne: "district_rows data k \<noteq> []"
    then have "(k, district_rows data k) \<in> set (obj_entries (dataMap acc))"
      using gs(2) [of k] by (simp add: map_of_SomeD)
    with ok obtain en where "build_entry H (district_rows data k) = Inr en" by blast
    then show "\<exists>en. build_entry H (district_rows data k) = Inr en
                \<and> obj_get (csvData (loadDataFromCloud H (Snapshot data) s)) k = Some en"
      using ne by (simp add: look gs(2))
  next
    show "loadDataFromCloud H Unavailable s = s" by (simp add: loadDataFromCloud_def)
  qed
qed


section \<open>Invariants\<close>

lemma reachable_invariant:
  assumes "reachable H s"
  shows "distinct (map fst (csvData s))
       \<and> (\<forall>(k, en)\<in>set (csvData s). length (historicalEmployed en) = 6
             \<and> historicalEmployed en ! 0 = metric H (raw en))"
  using assms
proof (induction rule: reachable.induct)
  case start
  then show ?case by (simp add: initial_state_def)
next
  case (cycle s response)
  show ?case
  proof (cases response)
    case Unavailable
    then show ?thesis using cycle.IH by (simp add: loadDataFromCloud_def)
  next
    case (Snapshot data)
    show ?thesis
    proof (cases "ingest_rows H start_ingest data")
      case (Inl err)
      then show ?thesis using cycle.IH by (simp add: Snapshot load_unfold)
    next
      case (Inr acc)
      have "\<forall>(k, g)\<in>set (obj_entries (dataMap acc)). \<forall>en. build_entry H g = Inr en \<longrightarrow>
              length (historicalEmployed en) = 6 \<and> historicalEmployed en ! 0 = metric H (raw en)"
      proof (clarify)
        fix k g en assume b: "build_entry H g = Inr en"
        from build_entry_shape [OF b] obtain periods where p: "periods \<noteq> []"
          "mset periods = mset g"
          "en = \<lparr> raw = hd periods,
                  historicalEmployed = map (metric H) (take 6 periods)
                    @ replicate (6 - length g) (metric H (hd periods)) \<rparr>" by blast
        have len: "length g = length periods" using p(2) by (metis size_mset)
        show "length (historicalEmployed en) = 6 \<and> historicalEmployed en ! 0 = metric H (raw en)"
          using p(1) by (cases periods) (simp_all add: p(3) len min_def)
      qed
      then have "\<forall>(k, en)\<in>set (install_all H (obj_entries (dataMap acc)) (csvData s)).
          length (historicalEmployed en) = 6 \<and> historicalEmployed en ! 0 = metric H (raw en)"
        using cycle.IH by (intro install_all_preserves) auto
      then show ?thesis
        using cycle.IH by (simp add: Snapshot load_unfold Inr install_all_distinct)
    qed
  qed
qed

text \<open>
  Claim C5, as the code has it. Every entry of a store that ingestion cycles can produce
  has a history of length exactly 6 whose first value is the employment value of its
  latest record as the store reads it (0 when the field is not a valid number). After a
  cycle on a snapshot whose accepted rows carry a string \<^verbatim>\<open>month\<close> and no identifier
  naming a property of \<^verbatim>\<open>Object.prototype\<close>, the entry of a district with accepted rows
  is built from these rows sorted by the comparator (by any key the comparator respects,
  rows of equal key keeping their order): the latest record is the first of them, and
  the history holds the values of the first six followed, when there are fewer than six,
  by copies of the value of the first. One row gives its value six times; rows without
  a valid value give six zeros.
\<close>

theorem history_length_six:
  "(reachable H s \<and> obj_get (csvData s) k = Some en \<longrightarrow>
      length (historicalEmployed en) = 6 \<and> historicalEmployed en ! 0 = metric H (raw en))
   \<and> ((\<forall>row\<in>set data. validateDistrictData row \<longrightarrow>
          row_get row MAPPINGS_districtId \<notin> JStr ` set object_prototype_keys
          \<and> (\<exists>m. row_get row ''month'' = JStr m))
       \<and> district_rows data k \<noteq> [] \<longrightarrow>
       (\<exists>periods built.
           array_sort (compare_month H) (district_rows data k) = Inr periods
         \<and> mset periods = mset (district_rows data k)
         \<and> obj_get (csvData (loadDataFromCloud H (Snapshot data) s)) k = Some built
         \<and> raw built = hd periods
         \<and> historicalEmployed built
             = map (metric H) (take 6 periods)
                 @ replicate (6 - length (district_rows data k)) (metric H (hd periods))
         \<and> (length (district_rows data k) = 1 \<longrightarrow>
              historicalEmployed built = replicate 6 (metric H (hd (district_rows data k))))
         \<and> ((\<forall>r\<in>set (district_rows data k). \<not> isValidNumeric H (row_get r MAPPINGS_peopleEmployed))
              \<longrightarrow> historicalEmployed built = replicate 6 (Num 0))
         \<and> ((\<forall>x\<in>set (district_rows data k). \<forall>y\<in>set (district_rows data k). \<forall>c.
                 compare_month H x y = Inr c \<longrightarrow> (c < 0 \<longleftrightarrow> key x < (key y :: int)))
              \<longrightarrow> periods = sort_key key (district_rows data k))))"
proof (intro conjI impI)
  assume a: "reachable H s \<and> obj_get (csvData s) k = Some en"
  then have "(k, en) \<in> set (csvData s)" by (simp add: obj_get_def map_of_SomeD)
  then show "length (historicalEmployed en) = 6" "historicalEmployed en ! 0 = metric H (raw en)"
    using reachable_invariant [of H s] a by auto
next
  let ?g = "district_rows data k"
  assume a: "(\<forall>row\<in>set data. validateDistrictData row \<longrightarrow>
          row_get row MAPPINGS_districtId \<notin> JStr ` set object_prototype_keys
          \<and> (\<exists>m. row_get row ''month'' = JStr m))
       \<and> ?g \<noteq> []"
  then obtain built where b: "build_entry H ?g = Inr built"
    and l: "obj_get (csvData (loadDataFromCloud H (Snapshot data) s)) k = Some built"
    using cycle_lookup [of data k H s] by blast
  from build_entry_shape [OF b] obtain periods where p:
    "array_sort (compare_month H) ?g = Inr periods" "periods \<noteq> []" "mset periods = mset ?g"
    "built = \<lparr> raw = hd periods,
               historicalEmployed = map (metric H) (take 6 periods)
                 @ replicate (6 - length ?g) (metric H (hd periods)) \<rparr>" by blast
  have h: "historicalEmployed built
      = map (metric H) (take 6 periods) @ replicate (6 - length ?g) (metric H (hd periods))"
    by (simp add: p(4))
  have len: "length ?g = length periods" using p(3) by (metis size_mset)
  have one: "historicalEmployed built = replicate 6 (metric H (hd ?g))" if "length ?g = 1"
  proof -
    from that obtain r where g: "?g = [r]" by (cases ?g) auto
    then have "periods = [r]" using p(3) by simp
    then show ?thesis by (simp add: h g flip: replicate_Suc)
  qed
  have zeros: "historicalEmployed built = replicate 6 (Num 0)"
    if n: "\<forall>r\<in>set ?g. \<not> isValidNumeric H (row_get r MAPPINGS_peopleEmployed)"
  proof -
    have "set periods = set ?g" using p(3) by (rule mset_eq_setD)
    then have z: "metric H r = Num 0" if "r \<in> set periods" for r
      using that n by (simp add: metric_def parseNumericSafe_def)
    have "map (metric H) (take 6 periods) = map (\<lambda>r. Num 0) (take 6 periods)"
      by (rule map_cong) (auto dest: in_set_takeD simp: z)
    then have "map (metric H) (take 6 periods) = replicate (length (take 6 periods)) (Num 0)"
      by (simp only: map_replicate_const)
    moreover have "metric H (hd periods) = Num 0" using p(2) by (simp add: z)
    ultimately show ?thesis by (simp add: h len min_def flip: replicate_add)
  qed
  have ordered: "periods = sort_key key ?g"
    if k: "\<forall>x\<in>set ?g. \<forall>y\<in>set ?g. \<forall>c.
             compare_month H x y = Inr c \<longrightarrow> (c < 0 \<longleftrightarrow> key x < key y)"
  proof -
    have "\<forall>x\<in>set ?g. \<forall>y\<in>set ?g. \<exists>c. compare_month H x y = Inr c \<and> (c < 0 \<longleftrightarrow> key x < key y)"
    proof (intro ballI)
      fix x y assume "x \<in> set ?g" "y \<in> set ?g"
      moreover from this a obtain m where "row_get y ''month'' = JStr m"
        using district_rows_subset by blast
      then obtain c where "compare_month H x y = Inr c"
        using compare_month_succeeds by blast
      ultimately show "\<exists>c. compare_month H x y = Inr c \<and> (c < 0 \<longleftrightarrow> key x < key y)"
        using k by blast
    qed
    then have "array_sort (compare_month H) ?g = Inr (sort_key key ?g)" by (rule array_sort_stable)
    then show ?thesis using p(1) by simp
  qed
  show "\<exists>periods built.
           array_sort (compare_month H) ?g = Inr periods
         \<and> mset periods = mset ?g
         \<and> obj_get (csvData (loadDataFromCloud H (Snapshot data) s)) k = Some built
         \<and> raw built = hd periods
         \<and> historicalEmployed built
             = map (metric H) (take 6 periods) @ replicate (6 - length ?g) (metric H (hd periods))
         \<and> (length ?g = 1 \<longrightarrow> historicalEmployed built = replicate 6 (metric H (hd ?g)))
         \<and> ((\<forall>r\<in>set ?g. \<not> isValidNumeric H (row_get r MAPPINGS_peopleEmployed))
              \<longrightarrow> historicalEmployed built = replicate 6 (Num 0))
         \<and> ((\<forall>x\<in>set ?g. \<forall>y\<in>set ?g. \<forall>c.
                 compare_month H x y = Inr c \<longrightarrow> (c < 0 \<longleftrightarrow> key x < key y))
              \<longrightarrow> periods = sort_key key ?g)"
    using p(1,3) l h one zeros ordered
    by (intro exI [of _ periods] exI [of _ built]) (simp add: p(4))
qed

section \<open>Listing\<close>

lemma trim_empty_iff: "trim s = [] \<longleftrightarrow> (\<forall>c\<in>set s. is_white_space c)"
proof
  assume "trim s = []"
  then have a: "\<forall>c\<in>set (dropWhile is_white_space s). is_white_space c"
    by (simp add: trim_def dropWhile_eq_Nil_conv)
  show "\<forall>c\<in>set s. is_white_space c"
  proof (rule ccontr)
    assume "\<not> (\<forall>c\<in>set s. is_white_space c)"
    then have ne: "dropWhile is_white_space s \<noteq> []" by (simp add: dropWhile_eq_Nil_conv)
    then have "\<not> is_white_space (hd (dropWhile is_white_space s))" by (rule hd_dropWhile)
    moreover have "hd (dropWhile is_white_space s) \<in> set (dropWhile is_white_space s)"
      using ne by simp
    ultimately show False using a by blast
  qed
next
  assume "\<forall>c\<in>set s. is_white_space c"
  then show "trim s = []" by (auto simp: trim_def dest: set_dropWhileD)
qed

lemma isValidString_iff:
  "isValidString v \<longleftrightarrow> (\<exists>n. v = JStr n \<and> (\<exists>c\<in>set n. \<not> is_white_space c))"
  by (cases v) (auto simp: isValidString_def trim_empty_iff)

lemma item_name_display:
  "(if isValidString (row_get (raw en) MAPPINGS_districtName)
    then row_get (raw en) MAPPINGS_districtName else JStr k) = display_name k en"
  by (cases "row_get (raw en) ''district_name''")
     (auto simp: display_name_def isValidString_iff MAPPINGS_districtName_def)

text \<open>
  Claim C10, as the code has it. On every store that ingestion cycles can produce, the
  listing holds one item for each stored district whose latest record has
  \<^verbatim>\<open>state_name\<close> equal to the fixed string \<^verbatim>\<open>UTTAR PRADESH\<close>, and no other item. The
  display name is the \<^verbatim>\<open>district_name\<close> of the latest record when that is a string
  with at least one character that is not white space, and the district identifier
  otherwise.
\<close>

theorem listDistricts_exact:
  assumes "reachable H s"
  shows "set (listDistricts (csvData s))
           = {\<lparr> item_id = k, item_name = display_name k en \<rparr> | k en.
                obj_get (csvData s) k = Some en
                \<and> row_get (raw en) ''state_name'' = JStr ''UTTAR PRADESH''}
       \<and> distinct (map item_id (listDistricts (csvData s)))"
proof -
  let ?st = "csvData s"
  have d: "distinct (map fst ?st)" using reachable_invariant [OF assms] by simp
  have d': "distinct (map fst (obj_entries ?st))" using d by (rule distinct_obj_entries)
  have mem: "(k, en) \<in> set (obj_entries ?st) \<longleftrightarrow> obj_get ?st k = Some en" for k en
    using d by (simp add: set_obj_entries obj_get_def)
  have l: "listDistricts ?st =
      map (\<lambda>(k, en). \<lparr> item_id = k, item_name = display_name k en \<rparr>)
          (filter (\<lambda>(k, en). row_get (raw en) ''state_name'' = JStr ''UTTAR PRADESH'') (obj_entries ?st))"
    by (simp add: listDistricts_def item_name_display)
  have "map item_id (listDistricts ?st)
          = map fst (filter (\<lambda>(k, en). row_get (raw en) ''state_name'' = JStr ''UTTAR PRADESH'') (obj_entries ?st))"
    unfolding l by (simp add: case_prod_unfold comp_def)
  then have "distinct (map item_id (listDistricts ?st))"
    using d' by (simp add: distinct_map_filter)
  moreover have "set (listDistricts ?st)
           = {\<lparr> item_id = k, item_name = display_name k en \<rparr> | k en.
                obj_get ?st k = Some en
                \<and> row_get (raw en) ''state_name'' = JStr ''UTTAR PRADESH''}"
    unfolding l using mem by (auto simp: image_iff) 
  ultimately show ?thesis by simp
qed


section \<open>Magnitude formatting\<close>















section \<open>Examples\<close>

lemmas eval_defs = loadDataFromCloud_def start_ingest_def ingest_row_def validateDistrictData_def
  row_get_def obj_get_def MAPPINGS_districtId_def MAPPINGS_districtName_def MAPPINGS_peopleEmployed_def
  isValidString_def trim_def is_white_space_def ToString_def object_prototype_keys_def
  obj_entries_def is_array_index_def is_digit_def build_entry_def array_sort_def compare_month_def
  parseNumericSafe_def isValidNumeric_def parseFloat_def ToNumber_def isFinite_def
  pad_history.simps or_zero_def at_num_def example_row_def example_host_def initial_state_def
  Let_def

text \<open>
  The claim as stated fails: after a cycle on a snapshot that holds district \<open>B\<close> only,
  the store still maps \<open>A\<close> to the entry of the cycle before.
\<close>

theorem rebuild_merges_counterexample:
  "district_rows [example_row ''B'' ''Banda'' ''2024-02'' (JNum (Num 700))] ''A'' = []
   \<and> obj_get (csvData (loadDataFromCloud example_host
         (Snapshot [example_row ''B'' ''Banda'' ''2024-02'' (JNum (Num 700))])
         (loadDataFromCloud example_host
            (Snapshot [example_row ''A'' ''Agra'' ''2024-01'' (JNum (Num 500))]) initial_state))) ''A''
       = Some \<lparr> raw = example_row ''A'' ''Agra'' ''2024-01'' (JNum (Num 500)),
                historicalEmployed = [Num 500, Num 500, Num 500, Num 500, Num 500, Num 500] \<rparr>"
  by (simp add: eval_defs district_rows_def)

theorem rebuild_merges_witness:
  "obj_get (csvData (loadDataFromCloud example_host
         (Snapshot [example_row ''B'' ''Banda'' ''2024-02'' (JNum (Num 700)),
                    example_row ''B'' ''Banda'' ''2024-03'' (JNum (Num 900))])
         initial_state)) ''B''
       = Some \<lparr> raw = example_row ''B'' ''Banda'' ''2024-03'' (JNum (Num 900)),
                historicalEmployed = [Num 900, Num 700, Num 900, Num 900, Num 900, Num 900] \<rparr>
   \<and> obj_get (csvData (loadDataFromCloud example_host
         (Snapshot [example_row ''B'' ''Banda'' ''2024-02'' (JNum (Num 700)),
                    example_row ''B'' ''Banda'' ''2024-03'' (JNum (Num 900))])
         initial_state)) ''A'' = None"
  using rebuild_merges [of "[example_row ''B'' ''Banda'' ''2024-02'' (JNum (Num 700)),
                    example_row ''B'' ''Banda'' ''2024-03'' (JNum (Num 900))]" "''B''" example_host initial_state]
   rebuild_merges [of "[example_row ''B'' ''Banda'' ''2024-02'' (JNum (Num 700)),
                    example_row ''B'' ''Banda'' ''2024-03'' (JNum (Num 900))]" "''A''" example_host initial_state]
  by (simp add: district_rows_def validateDistrictData_def row_get_def obj_get_def MAPPINGS_districtId_def
      MAPPINGS_peopleEmployed_def
      isValidString_def trim_def is_white_space_def object_prototype_keys_def example_row_def
      build_entry_def array_sort_def compare_month_def ToString_def example_host_def
      parseNumericSafe_def isValidNumeric_def parseFloat_def ToNumber_def isFinite_def
      pad_history.simps or_zero_def at_num_def initial_state_def)

lemma example_cycle:
  "csvData (loadDataFromCloud example_host
      (Snapshot [example_row ''A'' ''Agra'' ''2024-01'' (JStr ''500''),
                 [(''district_code'', JStr ''K''), (''state_name'', JStr ''KERALA''), (''month'', JStr ''2024-01'')]])
      initial_state)
   = [(''A'', \<lparr> raw = example_row ''A'' ''Agra'' ''2024-01'' (JStr ''500''),
               historicalEmployed = [Num 500, Num 500, Num 500, Num 500, Num 500, Num 500] \<rparr>),
      (''K'', \<lparr> raw = [(''district_code'', JStr ''K''), (''state_name'', JStr ''KERALA''), (''month'', JStr ''2024-01'')],
               historicalEmployed = [Num 0, Num 0, Num 0, Num 0, Num 0, Num 0] \<rparr>)]"
  by (simp add: eval_defs parse_digits_def dec_val_def fl_numeral fl_one)

theorem history_length_six_witness:
  "reachable example_host (loadDataFromCloud example_host
      (Snapshot [example_row ''A'' ''Agra'' ''2024-01'' (JStr ''500''),
                 [(''district_code'', JStr ''K''), (''state_name'', JStr ''KERALA''), (''month'', JStr ''2024-01'')]])
      initial_state)
   \<and> length [Num 500, Num 500, Num 500, Num 500, Num 500, Num 500 :: jsnum] = 6
   \<and> metric example_host (example_row ''A'' ''Agra'' ''2024-01'' (JStr ''500'')) = Num 500
   \<and> district_rows [example_row ''B'' ''Banda'' ''2024-02'' (JNum (Num 700)),
                     example_row ''B'' ''Banda'' ''2024-03'' (JNum (Num 900))] ''B'' \<noteq> []
   \<and> sort_key (\<lambda>r. if row_get r ''month'' = JStr ''2024-03'' then 0 else 1 :: int)
         [example_row ''B'' ''Banda'' ''2024-02'' (JNum (Num 700)),
          example_row ''B'' ''Banda'' ''2024-03'' (JNum (Num 900))]
       = [example_row ''B'' ''Banda'' ''2024-03'' (JNum (Num 900)),
          example_row ''B'' ''Banda'' ''2024-02'' (JNum (Num 700))]
   \<and> obj_get (csvData (loadDataFromCloud example_host
         (Snapshot [example_row ''B'' ''Banda'' ''2024-02'' (JNum (Num 700)),
                    example_row ''B'' ''Banda'' ''2024-03'' (JNum (Num 900))])
         initial_state)) ''B''
       = Some \<lparr> raw = example_row ''B'' ''Banda'' ''2024-03'' (JNum (Num 900)),
                historicalEmployed = [Num 900, Num 700, Num 900, Num 900, Num 900, Num 900] \<rparr>"
proof -
  let ?s = "loadDataFromCloud example_host
      (Snapshot [example_row ''A'' ''Agra'' ''2024-01'' (JStr ''500''),
                 [(''district_code'', JStr ''K''), (''state_name'', JStr ''KERALA''), (''month'', JStr ''2024-01'')]])
      initial_state"
  let ?data = "[example_row ''B'' ''Banda'' ''2024-02'' (JNum (Num 700)),
                example_row ''B'' ''Banda'' ''2024-03'' (JNum (Num 900))]"
  let ?key = "\<lambda>r. if row_get r ''month'' = JStr ''2024-03'' then 0 else 1 :: int"
  have r: "reachable example_host ?s" by (rule reachable.cycle [OF reachable.start])
  have l: "obj_get (csvData ?s) ''A''
      = Some \<lparr> raw = example_row ''A'' ''Agra'' ''2024-01'' (JStr ''500''),
               historicalEmployed = [Num 500, Num 500, Num 500, Num 500, Num 500, Num 500] \<rparr>"
    unfolding example_cycle by (simp add: obj_get_def)
  have one: "length [Num 500, Num 500, Num 500, Num 500, Num 500, Num 500 :: jsnum] = 6
      \<and> metric example_host (example_row ''A'' ''Agra'' ''2024-01'' (JStr ''500'')) = Num 500"
    using history_length_six [where H = example_host and s = ?s and k = "''A''"
        and en = "\<lparr> raw = example_row ''A'' ''Agra'' ''2024-01'' (JStr ''500''),
               historicalEmployed = [Num 500, Num 500, Num 500, Num 500, Num 500, Num 500] \<rparr>",
        THEN conjunct1]
      r l by simp
  have two: "district_rows ?data ''B'' \<noteq> []
      \<and> sort_key ?key ?data
           = [example_row ''B'' ''Banda'' ''2024-03'' (JNum (Num 900)),
              example_row ''B'' ''Banda'' ''2024-02'' (JNum (Num 700))]
      \<and> obj_get (csvData (loadDataFromCloud example_host (Snapshot ?data) initial_state)) ''B''
       = Some \<lparr> raw = example_row ''B'' ''Banda'' ''2024-03'' (JNum (Num 900)),
                historicalEmployed = [Num 900, Num 700, Num 900, Num 900, Num 900, Num 900] \<rparr>"
    using history_length_six [where data = ?data and H = example_host
        and k = "''B''" and s = initial_state and key = ?key, THEN conjunct2]
    by (simp add: district_rows_def validateDistrictData_def row_get_def obj_get_def
        MAPPINGS_districtId_def MAPPINGS_peopleEmployed_def metric_def
        isValidString_def trim_def is_white_space_def object_prototype_keys_def example_row_def
        array_sort_def compare_month_def ToString_def example_host_def
        parseNumericSafe_def isValidNumeric_def parseFloat_def ToNumber_def isFinite_def
        initial_state_def) (auto simp: numeral_eq_Suc intro!: entry.equality)
  show ?thesis using r one two by simp
qed

text \<open>
  The claim as stated fails: the padding repeats the value read from the latest record,
  which is 0 when that record has no valid value, not the most recent known value. With
  the periods \<^verbatim>\<open>2024-02\<close> (value \<^verbatim>\<open>abc\<close>) and \<^verbatim>\<open>2024-01\<close> (value 300) the history is
  \<open>[0, 300, 0, 0, 0, 0]\<close>.
\<close>

theorem history_length_six_counterexample:
  "metric example_host (example_row ''A'' ''Agra'' ''2024-01'' (JStr ''300'')) = Num 300
   \<and> obj_get (csvData (loadDataFromCloud example_host
         (Snapshot [example_row ''A'' ''Agra'' ''2024-02'' (JStr ''abc''),
                    example_row ''A'' ''Agra'' ''2024-01'' (JStr ''300'')])
         initial_state)) ''A''
       = Some \<lparr> raw = example_row ''A'' ''Agra'' ''2024-02'' (JStr ''abc''),
                historicalEmployed = [Num 0, Num 300, Num 0, Num 0, Num 0, Num 0] \<rparr>"
  by (simp add: eval_defs metric_def parse_digits_def dec_val_def fl_numeral fl_one)

theorem rebuild_idempotent_witness:
  "loadDataFromCloud example_host (Snapshot [example_row ''A'' ''Agra'' ''2024-01'' (JStr ''500'')])
     (loadDataFromCloud example_host (Snapshot [example_row ''A'' ''Agra'' ''2024-01'' (JStr ''500'')])
        initial_state)
   = loadDataFromCloud example_host (Snapshot [example_row ''A'' ''Agra'' ''2024-01'' (JStr ''500'')])
        initial_state"
  by (rule rebuild_idempotent)

text \<open>
  The claim as stated fails: a \<^verbatim>\<open>district_name\<close> of two spaces is a non-empty string,
  and the listing shows the identifier instead.
\<close>

theorem listDistricts_exact_counterexample:
  "row_get (example_row ''D1'' ''  '' ''2024-01'' (JStr ''500'')) ''district_name'' = JStr ''  ''
   \<and> ''  '' \<noteq> []
   \<and> listDistricts (csvData (loadDataFromCloud example_host
        (Snapshot [example_row ''D1'' ''  '' ''2024-01'' (JStr ''500'')]) initial_state))
     = [\<lparr> item_id = ''D1'', item_name = JStr ''D1'' \<rparr>]"
  by (simp add: eval_defs listDistricts_def parse_digits_def dec_val_def fl_numeral fl_one)

theorem listDistricts_exact_witness:
  "reachable example_host (loadDataFromCloud example_host
      (Snapshot [example_row ''A'' ''Agra'' ''2024-01'' (JStr ''500''),
                 [(''district_code'', JStr ''K''), (''state_name'', JStr ''KERALA''), (''month'', JStr ''2024-01'')]])
      initial_state)
   \<and> \<lparr> item_id = ''A'', item_name = JStr ''Agra'' \<rparr>
       \<in> set (listDistricts (csvData (loadDataFromCloud example_host
      (Snapshot [example_row ''A'' ''Agra'' ''2024-01'' (JStr ''500''),
                 [(''district_code'', JStr ''K''), (''state_name'', JStr ''KERALA''), (''month'', JStr ''2024-01'')]])
      initial_state)))
   \<and> distinct (map item_id (listDistricts (csvData (loadDataFromCloud example_host
      (Snapshot [example_row ''A'' ''Agra'' ''2024-01'' (JStr ''500''),
                 [(''district_code'', JStr ''K''), (''state_name'', JStr ''KERALA''), (''month'', JStr ''2024-01'')]])
      initial_state))))"
proof -
  let ?s = "loadDataFromCloud example_host
      (Snapshot [example_row ''A'' ''Agra'' ''2024-01'' (JStr ''500''),
                 [(''district_code'', JStr ''K''), (''state_name'', JStr ''KERALA''), (''month'', JStr ''2024-01'')]])
      initial_state"
  let ?en = "\<lparr> raw = example_row ''A'' ''Agra'' ''2024-01'' (JStr ''500''),
               historicalEmployed = [Num 500, Num 500, Num 500, Num 500, Num 500, Num 500] \<rparr>"
  have r: "reachable example_host ?s" by (rule reachable.cycle [OF reachable.start])
  have l: "obj_get (csvData ?s) ''A'' = Some ?en"
    unfolding example_cycle by (simp add: obj_get_def)
  have st: "row_get (raw ?en) ''state_name'' = JStr ''UTTAR PRADESH''"
    by (simp add: row_get_def obj_get_def example_row_def)
  have nm: "display_name ''A'' ?en = JStr ''Agra''"
    by (simp add: display_name_def row_get_def obj_get_def example_row_def is_white_space_def)
  have mem: "\<lparr> item_id = ''A'', item_name = JStr ''Agra'' \<rparr>
          \<in> {\<lparr> item_id = k, item_name = display_name k en \<rparr> | k en.
                obj_get (csvData ?s) k = Some en
                \<and> row_get (raw en) ''state_name'' = JStr ''UTTAR PRADESH''}"
    by (rule CollectI, rule exI [of _ "''A''"], rule exI [of _ ?en]) (simp only: l st nm simp_thms)
  note e = listDistricts_exact [OF r, THEN conjunct1]
  note d = listDistricts_exact [OF r, THEN conjunct2]
  from mem have "\<lparr> item_id = ''A'', item_name = JStr ''Agra'' \<rparr> \<in> set (listDistricts (csvData ?s))"
    unfolding e .
  with r d show ?thesis by (intro conjI)
qed

text \<open>
  A cycle that an exception cuts short: the two rows of district \<open>B\<close> have no
  \<^verbatim>\<open>month\<close>, so sorting them raises. The metrics of the snapshot are published and
  district \<open>A\<close> is installed; \<open>B\<close> and \<open>C\<close> are not.
\<close>

lemma partial_rebuild_example:
  "loadDataFromCloud example_host
     (Snapshot [example_row ''A'' ''Agra'' ''2024-01'' (JStr ''500''),
                [(''district_code'', JStr ''B'')], [(''district_code'', JStr ''B'')],
                example_row ''C'' ''Chitrakoot'' ''2024-01'' (JStr ''300'')])
     initial_state
   = \<lparr> csvData =
         [(''A'', \<lparr> raw = example_row ''A'' ''Agra'' ''2024-01'' (JStr ''500''),
                  historicalEmployed = [Num 500, Num 500, Num 500, Num 500, Num 500, Num 500] \<rparr>)],
       dataQualityMetrics = \<lparr> totalRows = 4, validRows = 4, invalidRows = 0,
         skippedDistricts = 0, completenessScore = Num 100 \<rparr> \<rparr>"
  by (simp add: eval_defs parse_digits_def dec_val_def fl_numeral fl_one)

end
